theory Spec2Isabelle
  imports Main
begin

section \<open>Python values, dictionaries and exceptions\<close>

text \<open>
  The values the two modules handle. Immutable values are carried as they are; a list or a
  dict is a mutable object and is carried as a reference \<open>VRef a\<close> into a store of objects.
  A class is identified by an identity and has a \<open>__name__\<close>; two different classes may share
  a name.
\<close>

datatype pv =
    VNone
  | VBool bool
  | VInt int
  | VStr string
  | VClass nat string
  | VRef nat

text \<open>
  A dict is insertion ordered: an association list whose keys are pairwise different. The keys
  are strings: module categories, class names and keyword-argument names.
\<close>

type_synonym 'v pydict = "(string \<times> 'v) list"

definition dict_keys :: "'v pydict \<Rightarrow> string list" where
  "dict_keys d = map fst d"

definition dict_contains :: "string \<Rightarrow> 'v pydict \<Rightarrow> bool" where
  "dict_contains k d = (k \<in> set (dict_keys d))"

definition dict_get :: "'v pydict \<Rightarrow> string \<Rightarrow> 'v option" where
  "dict_get d k = map_of d k"

text \<open>\<^verbatim>\<open>d[k] = v\<close>: an existing key keeps its place, a new key goes to the end.\<close>

fun dict_setitem :: "string \<Rightarrow> 'v \<Rightarrow> 'v pydict \<Rightarrow> 'v pydict" where
  "dict_setitem k v [] = [(k, v)]"
| "dict_setitem k v ((k', v') # d) =
     (if k' = k then (k, v) # d else (k', v') # dict_setitem k v d)"

text \<open>\<^verbatim>\<open>d.setdefault(k, v)\<close>, for its effect on \<open>d\<close>.\<close>

definition dict_setdefault :: "string \<Rightarrow> 'v \<Rightarrow> 'v pydict \<Rightarrow> 'v pydict" where
  "dict_setdefault k v d = (if dict_contains k d then d else d @ [(k, v)])"

text \<open>\<^verbatim>\<open>d.pop(k)\<close>, for its effect on \<open>d\<close>; the value popped is \<open>dict_get d k\<close>.\<close>

definition dict_pop :: "string \<Rightarrow> 'v pydict \<Rightarrow> 'v pydict" where
  "dict_pop k d = filter (\<lambda>kv. fst kv \<noteq> k) d"

text \<open>
  The mutable objects: lists and dicts. The store is a list of objects, the address of an
  object is its index, and a new object is appended.
\<close>

datatype obj =
    OList "pv list"
  | ODict "pv pydict"

type_synonym heap = "obj list"

definition as_list :: "heap \<Rightarrow> pv \<Rightarrow> pv list option" where
  "as_list h v =
     (case v of
        VRef a \<Rightarrow> (if a < length h then (case h ! a of OList xs \<Rightarrow> Some xs | ODict _ \<Rightarrow> None)
                   else None)
      | _ \<Rightarrow> None)"

definition as_dict :: "heap \<Rightarrow> pv \<Rightarrow> pv pydict option" where
  "as_dict h v =
     (case v of
        VRef a \<Rightarrow> (if a < length h then (case h ! a of ODict d \<Rightarrow> Some d | OList _ \<Rightarrow> None)
                   else None)
      | _ \<Rightarrow> None)"

text \<open>
  An exception is a value: its class and the message of the \<^verbatim>\<open>raise\<close> or \<^verbatim>\<open>assert\<close>
  statement as the source writes it, with the placeholders of an f-string left as
  they are. The errors of the specification are classes of Python: InvalidArgumentType and
  InvalidType are \<open>TypeError\<close>; MissingRequiredField, NotFound and DuplicateRegistration are
  \<open>KeyError\<close>; Validation is \<open>AssertionError\<close>.
\<close>

datatype error =
    TypeError string
  | KeyError string
  | AssertionError string
  | AttributeError string

definition is_TypeError :: "error + 'a \<Rightarrow> bool" where
  "is_TypeError r = (case r of Inl (TypeError _) \<Rightarrow> True | _ \<Rightarrow> False)"

definition is_KeyError :: "error + 'a \<Rightarrow> bool" where
  "is_KeyError r = (case r of Inl (KeyError _) \<Rightarrow> True | _ \<Rightarrow> False)"

definition is_AssertionError :: "error + 'a \<Rightarrow> bool" where
  "is_AssertionError r = (case r of Inl (AssertionError _) \<Rightarrow> True | _ \<Rightarrow> False)"

section \<open>The registry\<close>

text \<open>
  An instance of \<^verbatim>\<open>Registry\<close> has one attribute, \<^verbatim>\<open>_module_dict\<close>: a dict from module
  category to a dict from class name to the registered value.
\<close>

record Registry =
  module_dict :: "pv pydict pydict"

text \<open>\<^verbatim>\<open>Registry.__len__\<close>\<close>

definition Registry_len :: "Registry \<Rightarrow> nat" where
  "Registry_len self = length (module_dict self)"

text \<open>\<^verbatim>\<open>Registry.get(cls_name, module_name='module')\<close>\<close>

definition Registry_get :: "Registry \<Rightarrow> string \<Rightarrow> string \<Rightarrow> error + pv" where
  "Registry_get self cls_name module_name =
     (case dict_get (module_dict self) module_name of
        None \<Rightarrow> Inl (KeyError ''{module_name} is not in registry'')
      | Some dd \<Rightarrow>
          (case dict_get dd cls_name of
             None \<Rightarrow> Inl (KeyError ''{cls_name} is not registered in {module_name}'')
           | Some c \<Rightarrow> Inr c))"

text \<open>
  \<^verbatim>\<open>Registry.__contains__(key)\<close> is \<^verbatim>\<open>self.get(key) is not None\<close>: the call of \<open>get\<close> takes
  the default category \<^verbatim>\<open>'module'\<close>, and an exception of \<open>get\<close> leaves the method.
\<close>

definition Registry_contains :: "Registry \<Rightarrow> string \<Rightarrow> error + bool" where
  "Registry_contains self key =
     (case Registry_get self key ''module'' of
        Inl e \<Rightarrow> Inl e
      | Inr c \<Rightarrow> Inr (c \<noteq> VNone))"

text \<open>\<^verbatim>\<open>inspect.isclass\<close>\<close>

fun isclass :: "pv \<Rightarrow> bool" where
  "isclass (VClass _ _) = True"
| "isclass _ = False"

fun class_name :: "pv \<Rightarrow> string" where
  "class_name (VClass _ n) = n"
| "class_name _ = []"

text \<open>
  \<^verbatim>\<open>Registry._register_module(cls, module_name)\<close>. The method mutates \<^verbatim>\<open>self._module_dict\<close>
  step by step, so the result is the outcome (the exception raised, or the return of
  \<open>None\<close>) together with the registry as the method leaves it. \<open>setdefault\<close> runs before
  the test for a registered name.
\<close>

definition Registry__register_module ::
    "Registry \<Rightarrow> pv \<Rightarrow> string \<Rightarrow> (error + unit) \<times> Registry" where
  "Registry__register_module self cls module_name =
     (if \<not> isclass cls then
        (Inl (TypeError ''module must be a class, but got {type(cls)}''), self)
      else
        let cls_name = class_name cls;
            md1 = dict_setdefault module_name [] (module_dict self);
            dd = (case dict_get md1 module_name of Some d \<Rightarrow> d | None \<Rightarrow> [])
        in if dict_contains cls_name dd then
             (Inl (KeyError ''{cls_name} is already registered in {module_name}''),
              self\<lparr>module_dict := md1\<rparr>)
           else
             (Inr (),
              self\<lparr>module_dict := dict_setitem module_name (dict_setitem cls_name cls dd) md1\<rparr>))"

text \<open>\<^verbatim>\<open>Registry.register_module(module_name)(cls)\<close>: the decorator returns the class.\<close>

definition Registry_register_module ::
    "Registry \<Rightarrow> string \<Rightarrow> pv \<Rightarrow> (error + pv) \<times> Registry" where
  "Registry_register_module self module_name cls =
     (case Registry__register_module self cls module_name of
        (Inl e, self') \<Rightarrow> (Inl e, self')
      | (Inr _, self') \<Rightarrow> (Inr cls, self'))"

subsection \<open>The singleton\<close>

text \<open>
  \<^verbatim>\<open>Registry()\<close> runs \<^verbatim>\<open>Registry.__new__\<close> and then, on the object that \<open>__new__\<close>
  returned, \<^verbatim>\<open>Registry.__init__\<close>, as Python does for every call of a class whose
  \<open>__new__\<close> returns an instance of it. The process holds the class attribute
  \<^verbatim>\<open>Registry._instance\<close> and the objects of class \<open>Registry\<close>; an object that
  \<^verbatim>\<open>object.__new__\<close> has made and \<open>__init__\<close> has not yet reached has no attribute.
\<close>

record process =
  Registry_instance :: "nat option"
  Registry_objs :: "Registry option list"

definition process_start :: process where
  "process_start = \<lparr>Registry_instance = None, Registry_objs = []\<rparr>"

definition Registry_new :: "process \<Rightarrow> process \<times> nat" where
  "Registry_new p =
     (case Registry_instance p of
        None \<Rightarrow>
          (let a = length (Registry_objs p)
           in (p\<lparr>Registry_instance := Some a, Registry_objs := Registry_objs p @ [None]\<rparr>, a))
      | Some a \<Rightarrow> (p, a))"

definition Registry_init :: "process \<Rightarrow> nat \<Rightarrow> process" where
  "Registry_init p self =
     p\<lparr>Registry_objs := (Registry_objs p)[self := Some \<lparr>module_dict = []\<rparr>]\<rparr>"

definition Registry_construct :: "process \<Rightarrow> process \<times> nat" where
  "Registry_construct p = (case Registry_new p of (p1, self) \<Rightarrow> (Registry_init p1 self, self))"

text \<open>A method called through a reference reads the object, and a mutator writes it back.\<close>

definition Registry_at :: "process \<Rightarrow> nat \<Rightarrow> Registry option" where
  "Registry_at p a = (if a < length (Registry_objs p) then Registry_objs p ! a else None)"

definition get_via :: "process \<Rightarrow> nat \<Rightarrow> string \<Rightarrow> string \<Rightarrow> error + pv" where
  "get_via p a cls_name module_name =
     (case Registry_at p a of
        None \<Rightarrow> Inl (AttributeError ''_module_dict'')
      | Some self \<Rightarrow> Registry_get self cls_name module_name)"

definition register_via :: "process \<Rightarrow> nat \<Rightarrow> pv \<Rightarrow> string \<Rightarrow> (error + unit) \<times> process" where
  "register_via p a cls module_name =
     (case Registry_at p a of
        None \<Rightarrow> (if isclass cls then (Inl (AttributeError ''_module_dict''), p)
                 else (Inl (TypeError ''module must be a class, but got {type(cls)}''), p))
      | Some self \<Rightarrow>
          (case Registry__register_module self cls module_name of
             (r, self') \<Rightarrow> (r, p\<lparr>Registry_objs := (Registry_objs p)[a := Some self']\<rparr>)))"

text \<open>A run of construction requests, each returning its reference.\<close>

fun construct_many :: "nat \<Rightarrow> process \<Rightarrow> process \<times> nat list" where
  "construct_many 0 p = (p, [])"
| "construct_many (Suc n) p =
     (case Registry_construct p of
        (p1, a) \<Rightarrow> (case construct_many n p1 of (p2, as) \<Rightarrow> (p2, a # as)))"

section \<open>Building an object from a configuration\<close>

text \<open>
  Modelled from the spec: \<^verbatim>\<open>is_str\<close> is imported from \<^verbatim>\<open>.utils\<close>, which is not among the
  sources; the specification has the type name read and required to be a string.
\<close>

fun is_str :: "pv \<Rightarrow> bool" where
  "is_str (VStr _) = True"
| "is_str _ = False"

fun str_of :: "pv \<Rightarrow> string" where
  "str_of (VStr s) = s"
| "str_of _ = []"

text \<open>The argument \<open>registry\<close> is an instance of \<open>Registry\<close> or any other value.\<close>

datatype registry_arg =
    RegistryObj Registry
  | Other pv

text \<open>The loop \<^verbatim>\<open>for name, value in default_args.items(): args.setdefault(name, value)\<close>.\<close>

fun setdefault_all :: "'v pydict \<Rightarrow> 'v pydict \<Rightarrow> 'v pydict" where
  "setdefault_all [] args = args"
| "setdefault_all ((name, value) # items) args =
     setdefault_all items (dict_setdefault name value args)"

text \<open>
  \<^verbatim>\<open>build_from_cfg(cfg, registry, module_name='module', default_args=None)\<close>. The call
  \<^verbatim>\<open>obj_cls(**args)\<close> of the class found is the parameter \<open>call\<close>: it takes the class and the
  keyword arguments in their order and returns what the constructor returns or raises.
\<close>

definition build_from_cfg ::
    "(pv \<Rightarrow> pv pydict \<Rightarrow> error + 'r) \<Rightarrow> heap \<Rightarrow> pv \<Rightarrow> registry_arg \<Rightarrow> string \<Rightarrow> pv
      \<Rightarrow> error + 'r" where
  "build_from_cfg call h cfg registry module_name default_args =
     (case as_dict h cfg of
        None \<Rightarrow> Inl (TypeError ''cfg must be a dict, but got {type(cfg)}'')
      | Some cfg_items \<Rightarrow>
          if \<not> dict_contains ''typename'' cfg_items then
            Inl (KeyError ''the cfg dict must contain the key \"typename\", but got {cfg}'')
          else
            (case registry of
               Other _ \<Rightarrow>
                 Inl (TypeError ''registry must be a registry object, but got {type(registry)}'')
             | RegistryObj reg \<Rightarrow>
                 if \<not> (as_dict h default_args \<noteq> None \<or> default_args = VNone) then
                   Inl (TypeError
                     ''default_args must be a dict or None, but got {type(default_args)}'')
                 else
                   (case dict_get cfg_items ''typename'' of
                      None \<Rightarrow>
                        Inl (KeyError ''typename'')
                    | Some obj_type \<Rightarrow>
                        let args = dict_pop ''typename'' cfg_items
                        in if is_str obj_type then
                             (case Registry_get reg (str_of obj_type) module_name of
                                Inl e \<Rightarrow> Inl e
                              | Inr obj_cls \<Rightarrow>
                                  if default_args \<noteq> VNone then
                                    (case as_dict h default_args of
                                       Some defaults \<Rightarrow>
                                         call obj_cls (setdefault_all defaults args)
                                     | None \<Rightarrow> call obj_cls args)
                                  else call obj_cls args)
                           else Inl (TypeError ''type must be a str, but got {type(obj_type)}''))))"

section \<open>Deep copies\<close>

text \<open>
  \<^verbatim>\<open>copy.deepcopy\<close> on the values above. An immutable value is returned as it is. A list
  or a dict that the memo knows is answered from the memo; otherwise a new empty object is
  allocated and entered in the memo under the address of the original, and then filled, item
  by item, with the deep copies of the items, as \<^verbatim>\<open>_deepcopy_list\<close> and
  \<^verbatim>\<open>_deepcopy_dict\<close> do. The keys of a dict are strings and copy to themselves.
\<close>

type_synonym memo = "nat \<Rightarrow> nat option"

definition list_append_at :: "heap \<Rightarrow> nat \<Rightarrow> pv \<Rightarrow> heap" where
  "list_append_at h b v =
     h[b := (case h ! b of OList ys \<Rightarrow> OList (ys @ [v]) | ODict d \<Rightarrow> ODict d)]"

definition dict_setitem_at :: "heap \<Rightarrow> nat \<Rightarrow> string \<Rightarrow> pv \<Rightarrow> heap" where
  "dict_setitem_at h b k v =
     h[b := (case h ! b of ODict d \<Rightarrow> ODict (dict_setitem k v d) | OList ys \<Rightarrow> OList ys)]"

text \<open>The two loops, over a copier \<open>f\<close> for the items; \<open>b\<close> is the address of the copy.\<close>

primrec copy_list_items ::
    "(heap \<Rightarrow> memo \<Rightarrow> pv \<Rightarrow> (heap \<times> memo \<times> pv) option) \<Rightarrow> heap \<Rightarrow> memo \<Rightarrow> nat \<Rightarrow> pv list
      \<Rightarrow> (heap \<times> memo) option" where
  "copy_list_items f h m b [] = Some (h, m)"
| "copy_list_items f h m b (x # xs) =
     (case f h m x of
        None \<Rightarrow> None
      | Some (h1, m1, y) \<Rightarrow> copy_list_items f (list_append_at h1 b y) m1 b xs)"

primrec copy_dict_items ::
    "(heap \<Rightarrow> memo \<Rightarrow> pv \<Rightarrow> (heap \<times> memo \<times> pv) option) \<Rightarrow> heap \<Rightarrow> memo \<Rightarrow> nat \<Rightarrow> pv pydict
      \<Rightarrow> (heap \<times> memo) option" where
  "copy_dict_items f h m b [] = Some (h, m)"
| "copy_dict_items f h m b (kv # kvs) =
     (case f h m (snd kv) of
        None \<Rightarrow> None
      | Some (h1, m1, y) \<Rightarrow> copy_dict_items f (dict_setitem_at h1 b (fst kv) y) m1 b kvs)"

text \<open>
  The recursion of \<open>deepcopy\<close> descends once for each object that the memo does not know
  yet; the first argument bounds the depth of the descent, and \<open>None\<close> is the answer when
  the bound is reached or a reference points outside the store.
\<close>

primrec deepcopy_n :: "nat \<Rightarrow> heap \<Rightarrow> memo \<Rightarrow> pv \<Rightarrow> (heap \<times> memo \<times> pv) option" where
  "deepcopy_n 0 h m x =
     (case x of
        VRef a \<Rightarrow> (case m a of Some b \<Rightarrow> Some (h, m, VRef b) | None \<Rightarrow> None)
      | _ \<Rightarrow> Some (h, m, x))"
| "deepcopy_n (Suc n) h m x =
     (case x of
        VRef a \<Rightarrow>
          (case m a of
             Some b \<Rightarrow> Some (h, m, VRef b)
           | None \<Rightarrow>
               if a < length h then
                 (let b = length h in
                  case h ! a of
                    OList xs \<Rightarrow>
                      (case copy_list_items (deepcopy_n n) (h @ [OList []]) (m(a \<mapsto> b)) b xs of
                         None \<Rightarrow> None
                       | Some (h1, m1) \<Rightarrow> Some (h1, m1, VRef b))
                  | ODict kvs \<Rightarrow>
                      (case copy_dict_items (deepcopy_n n) (h @ [ODict []]) (m(a \<mapsto> b)) b kvs of
                         None \<Rightarrow> None
                       | Some (h1, m1) \<Rightarrow> Some (h1, m1, VRef b)))
               else None)
      | _ \<Rightarrow> Some (h, m, x))"

text \<open>
  \<^verbatim>\<open>copy.deepcopy(x)\<close> starts with an empty memo. No descent is deeper than the number of
  objects in the store, since each one enters an object of the store into the memo.
\<close>

definition deepcopy :: "heap \<Rightarrow> pv \<Rightarrow> (heap \<times> pv) option" where
  "deepcopy h x =
     (case deepcopy_n (length h) h Map.empty x of
        None \<Rightarrow> None
      | Some (h1, m1, y) \<Rightarrow> Some (h1, y))"

section \<open>AutoAugment\<close>

text \<open>
  An instance has the attributes \<open>policies\<close>, a reference to the deep copy, and
  \<open>transforms\<close>, the composed pipelines. \<^verbatim>\<open>Compose\<close> is not among the sources: the
  construction of a pipeline from a policy is the parameter \<open>compose\<close>, which reads the
  policy in the store and returns the pipeline or raises.
\<close>

record 'p AutoAugment =
  policies :: pv
  transforms :: "'p list"

text \<open>The inner loop of \<^verbatim>\<open>AutoAugment.__init__\<close>, over the augmentations of a policy.\<close>

fun check_augments :: "heap \<Rightarrow> pv list \<Rightarrow> error + unit" where
  "check_augments h [] = Inr ()"
| "check_augments h (augment # rest) =
     (case as_dict h augment of
        None \<Rightarrow>
          Inl (AssertionError ''Each specific augmentation must be a dict with key \"type\".'')
      | Some d \<Rightarrow>
          if dict_contains ''type'' d then check_augments h rest
          else
            Inl (AssertionError ''Each specific augmentation must be a dict with key \"type\".''))"

text \<open>The outer loop, over the policies.\<close>

fun check_policies :: "heap \<Rightarrow> pv list \<Rightarrow> error + unit" where
  "check_policies h [] = Inr ()"
| "check_policies h (policy # rest) =
     (case as_list h policy of
        None \<Rightarrow> Inl (AssertionError ''Each policy in policies must be a non-empty list.'')
      | Some augments \<Rightarrow>
          if length augments > 0 then
            (case check_augments h augments of
               Inl e \<Rightarrow> Inl e
             | Inr _ \<Rightarrow> check_policies h rest)
          else Inl (AssertionError ''Each policy in policies must be a non-empty list.''))"

text \<open>\<^verbatim>\<open>[Compose(policy) for policy in self.policies]\<close>\<close>

fun compose_all :: "(heap \<Rightarrow> pv \<Rightarrow> error + 'p) \<Rightarrow> heap \<Rightarrow> pv list \<Rightarrow> error + 'p list" where
  "compose_all compose h [] = Inr []"
| "compose_all compose h (policy # rest) =
     (case compose h policy of
        Inl e \<Rightarrow> Inl e
      | Inr t \<Rightarrow>
          (case compose_all compose h rest of
             Inl e \<Rightarrow> Inl e
           | Inr ts \<Rightarrow> Inr (t # ts)))"

text \<open>
  \<^verbatim>\<open>AutoAugment.__init__(policies)\<close>. The outcome is an exception, or the store after the
  deep copy together with the instance; \<open>None\<close> stands for a deep copy without an answer.
\<close>

definition AutoAugment_init ::
    "(heap \<Rightarrow> pv \<Rightarrow> error + 'p) \<Rightarrow> heap \<Rightarrow> pv \<Rightarrow> (error + heap \<times> 'p AutoAugment) option" where
  "AutoAugment_init compose h policies_arg =
     (case as_list h policies_arg of
        None \<Rightarrow> Some (Inl (AssertionError ''Policies must be a non-empty list.''))
      | Some ps \<Rightarrow>
          if length ps > 0 then
            (case check_policies h ps of
               Inl e \<Rightarrow> Some (Inl e)
             | Inr _ \<Rightarrow>
                 (case deepcopy h policies_arg of
                    None \<Rightarrow> None
                  | Some (h1, copied) \<Rightarrow>
                      (case as_list h1 copied of
                         None \<Rightarrow> None
                       | Some copied_policies \<Rightarrow>
                           (case compose_all compose h1 copied_policies of
                              Inl e \<Rightarrow> Some (Inl e)
                            | Inr ts \<Rightarrow>
                                Some (Inr (h1, \<lparr>policies = copied, transforms = ts\<rparr>))))))
          else Some (Inl (AssertionError ''Policies must be a non-empty list.'')))"

text \<open>
  \<^verbatim>\<open>AutoAugment.__call__(results)\<close>, for the pipeline that \<^verbatim>\<open>np.random.choice\<close> has
  drawn: \<open>i\<close> is the index drawn, below the number of pipelines, and \<open>run\<close> applies a
  pipeline to a record.
\<close>

definition AutoAugment_call :: "('p \<Rightarrow> 'r \<Rightarrow> 'o) \<Rightarrow> 'p AutoAugment \<Rightarrow> nat \<Rightarrow> 'r \<Rightarrow> 'o option" where
  "AutoAugment_call run self i results =
     (if i < length (transforms self) then Some (run (transforms self ! i) results) else None)"

section \<open>Stores and what a reference shows\<close>

text \<open>A value that is no reference, or a reference below \<open>n\<close>.\<close>

fun ref_below :: "nat \<Rightarrow> pv \<Rightarrow> bool" where
  "ref_below n (VRef a) = (a < n)"
| "ref_below n _ = True"

fun obj_values :: "obj \<Rightarrow> pv list" where
  "obj_values (OList xs) = xs"
| "obj_values (ODict d) = map snd d"

text \<open>Every reference held in an object of the store points into the store.\<close>

definition closed_heap :: "heap \<Rightarrow> bool" where
  "closed_heap h = list_all (\<lambda>ob. list_all (ref_below (length h)) (obj_values ob)) h"

text \<open>
  What can be read through a value down to a depth: the lists, the dicts and the immutable
  values, without the addresses.
\<close>

datatype tree =
    TAtom pv
  | TList "tree list"
  | TDict "(string \<times> tree) list"
  | TCut

primrec view :: "nat \<Rightarrow> heap \<Rightarrow> pv \<Rightarrow> tree" where
  "view 0 h x = (case x of VRef a \<Rightarrow> TCut | _ \<Rightarrow> TAtom x)"
| "view (Suc d) h x =
     (case x of
        VRef a \<Rightarrow>
          (if a < length h then
             (case h ! a of
                OList xs \<Rightarrow> TList (map (view d h) xs)
              | ODict kvs \<Rightarrow> TDict (map (\<lambda>kv. (fst kv, view d h (snd kv))) kvs))
           else TCut)
      | _ \<Rightarrow> TAtom x)"

text \<open>
  The policies as the assertions of \<open>__init__\<close> want them: a non-empty list of non-empty
  lists of dicts that have the key \<open>type\<close>.
\<close>

definition augment_ok :: "heap \<Rightarrow> pv \<Rightarrow> bool" where
  "augment_ok h augment =
     (case as_dict h augment of None \<Rightarrow> False | Some d \<Rightarrow> dict_contains ''type'' d)"

definition policy_ok :: "heap \<Rightarrow> pv \<Rightarrow> bool" where
  "policy_ok h policy =
     (case as_list h policy of
        None \<Rightarrow> False
      | Some augments \<Rightarrow> augments \<noteq> [] \<and> list_all (augment_ok h) augments)"

definition policies_ok :: "heap \<Rightarrow> pv \<Rightarrow> bool" where
  "policies_ok h policies_arg =
     (case as_list h policies_arg of
        None \<Rightarrow> False
      | Some ps \<Rightarrow> ps \<noteq> [] \<and> list_all (policy_ok h) ps)"

text \<open>
  A store \<open>h2\<close> that a caller can reach from \<open>h1\<close> by writing to the objects that were there
  before address \<open>n\<close>, and by allocating: it keeps what \<open>h1\<close> has from \<open>n\<close> on.
\<close>

definition mutation_of_old :: "nat \<Rightarrow> heap \<Rightarrow> heap \<Rightarrow> bool" where
  "mutation_of_old n h1 h2 =
     (length h1 \<le> length h2 \<and> list_all (\<lambda>a. h2 ! a = h1 ! a) [n ..< length h1])"

text \<open>A value that is no reference, or a reference to an object allocated from \<open>n0\<close> on.\<close>

fun fresh :: "nat \<Rightarrow> nat \<Rightarrow> pv \<Rightarrow> bool" where
  "fresh n0 n (VRef b) = (n0 \<le> b \<and> b < n)"
| "fresh n0 n _ = True"

text \<open>
  The state of a deep copy of a store that had \<open>n0\<close> objects: the objects below \<open>n0\<close>
  refer to objects below \<open>n0\<close>, the memo maps addresses below \<open>n0\<close> to addresses from
  \<open>n0\<close> on, and the objects from \<open>n0\<close> on refer to objects from \<open>n0\<close> on.
\<close>

definition copying :: "nat \<Rightarrow> heap \<Rightarrow> memo \<Rightarrow> bool" where
  "copying n0 h m =
     (n0 \<le> length h
      \<and> (\<forall>a < n0. \<forall>v \<in> set (obj_values (h ! a)). ref_below n0 v)
      \<and> (\<forall>a b. m a = Some b \<longrightarrow> a < n0 \<and> n0 \<le> b \<and> b < length h)
      \<and> (\<forall>b. n0 \<le> b \<and> b < length h \<longrightarrow>
            (\<forall>v \<in> set (obj_values (h ! b)). fresh n0 (length h) v)))"

text \<open>The store \<open>h'\<close> has the objects of \<open>h\<close>, unchanged, and maybe more.\<close>

definition extends :: "heap \<Rightarrow> heap \<Rightarrow> bool" where
  "extends h h' = (length h \<le> length h' \<and> (\<forall>a < length h. h' ! a = h ! a))"

text \<open>A pipeline that is what its policy shows, for the examples.\<close>

definition view_compose :: "heap \<Rightarrow> pv \<Rightarrow> error + tree" where
  "view_compose h policy = Inr (view 2 h policy)"

text \<open>
  What a copier owes for an answer: the objects that were there are unchanged, the state of
  the copy is kept, the memo has grown, and the answer is fresh.
\<close>

definition copied_ok :: "nat \<Rightarrow> heap \<Rightarrow> memo \<Rightarrow> heap \<times> memo \<times> pv \<Rightarrow> bool" where
  "copied_ok n0 h m r =
     (case r of (h', m', y) \<Rightarrow>
        extends h h' \<and> copying n0 h' m' \<and> m \<subseteq>\<^sub>m m' \<and> fresh n0 (length h') y)"

definition copier :: "nat \<Rightarrow> (heap \<Rightarrow> memo \<Rightarrow> pv \<Rightarrow> (heap \<times> memo \<times> pv) option) \<Rightarrow> bool" where
  "copier n0 f =
     (\<forall>h m x r. f h m x = Some r \<and> copying n0 h m \<and> ref_below n0 x \<longrightarrow> copied_ok n0 h m r)"

text \<open>A copier that answers whenever at most \<open>k\<close> old objects are missing from the memo.\<close>

definition total_copier ::
    "nat \<Rightarrow> nat \<Rightarrow> (heap \<Rightarrow> memo \<Rightarrow> pv \<Rightarrow> (heap \<times> memo \<times> pv) option) \<Rightarrow> bool" where
  "total_copier n0 k f =
     (\<forall>h m x. copying n0 h m \<and> ref_below n0 x \<and> card ({..<n0} - dom m) \<le> k
        \<longrightarrow> f h m x \<noteq> None)"



definition one_policy_heap :: heap where
  "one_policy_heap = [ODict [(''type'', VStr ''X'')], OList [VRef 0], OList [VRef 1]]"

definition constructed_heap :: heap where
  "constructed_heap =
     [ODict [(''type'', VStr ''X'')], OList [VRef 0], OList [VRef 1],
      OList [VRef 4], OList [VRef 5], ODict [(''type'', VStr ''X'')]]"

definition mutated_heap :: heap where
  "mutated_heap =
     [ODict [(''type'', VStr ''Y'')], OList [], OList [],
      OList [VRef 4], OList [VRef 5], ODict [(''type'', VStr ''X'')]]"

section \<open>Notions used in the statements\<close>

text \<open>The classes registered under a category; no class when the category is absent.\<close>

definition category :: "Registry \<Rightarrow> string \<Rightarrow> pv pydict" where
  "category self m = (case dict_get (module_dict self) m of None \<Rightarrow> [] | Some dd \<Rightarrow> dd)"

definition registered :: "Registry \<Rightarrow> string \<Rightarrow> string \<Rightarrow> bool" where
  "registered self cls_name module_name =
     (case dict_get (module_dict self) module_name of
        None \<Rightarrow> False
      | Some dd \<Rightarrow> dict_contains cls_name dd)"

text \<open>Every value registered is a class.\<close>

definition holds_classes :: "Registry \<Rightarrow> bool" where
  "holds_classes self =
     list_all (\<lambda>entry. list_all (\<lambda>kv. isclass (snd kv)) (snd entry)) (module_dict self)"

text \<open>The number of classes registered, over all categories.\<close>

definition class_count :: "Registry \<Rightarrow> nat" where
  "class_count self = sum_list (map (\<lambda>entry. length (snd entry)) (module_dict self))"

text \<open>The registry after two classes have been registered under one category.\<close>

definition two_in_one_category :: Registry where
  "two_in_one_category =
     snd (Registry__register_module
       (snd (Registry__register_module \<lparr>module_dict = []\<rparr> (VClass 0 ''A'') ''cat''))
       (VClass 1 ''B'') ''cat'')"

text \<open>The reference held in \<^verbatim>\<open>Registry._instance\<close> is the address of an object.\<close>

definition wf_process :: "process \<Rightarrow> bool" where
  "wf_process p =
     (case Registry_instance p of None \<Rightarrow> True | Some a \<Rightarrow> a < length (Registry_objs p))"

text \<open>A constructor that returns the class it was called on and its keyword arguments.\<close>

definition record_call :: "pv \<Rightarrow> pv pydict \<Rightarrow> error + (pv \<times> pv pydict)" where
  "record_call cls kwargs = Inr (cls, kwargs)"

text \<open>
  The keyword arguments when the defaults are filtered by the keys of \<open>cfg\<close>, the key
  \<^verbatim>\<open>typename\<close> among them.
\<close>

definition claimed_kwargs :: "pv pydict \<Rightarrow> pv pydict \<Rightarrow> pv pydict" where
  "claimed_kwargs cfg_items defaults =
     filter (\<lambda>kv. fst kv \<noteq> ''typename'') cfg_items
     @ filter (\<lambda>kv. \<not> dict_contains (fst kv) cfg_items) defaults"

text \<open>
  The keyword arguments when the defaults are filtered by the keys of \<open>cfg\<close> other than
  \<^verbatim>\<open>typename\<close>.
\<close>

definition merged_kwargs :: "pv pydict \<Rightarrow> pv pydict \<Rightarrow> pv pydict" where
  "merged_kwargs cfg_items defaults =
     (let args = filter (\<lambda>kv. fst kv \<noteq> ''typename'') cfg_items
      in args @ filter (\<lambda>kv. \<not> dict_contains (fst kv) args) defaults)"

text \<open>
  Modelled from the spec: \<^verbatim>\<open>Compose\<close> is not among the sources. The specification has it
  constructed from an ordered sequence of configuration records, mappings with the required
  field \<open>typename\<close>, and has it compose registered transforms: each record of the policy is
  built by \<open>build_from_cfg\<close> from the registry, under the category \<^verbatim>\<open>'pipeline'\<close> that
  \<open>AutoAugment\<close> is registered under itself, and the first exception leaves the constructor.
\<close>

fun build_all ::
    "(pv \<Rightarrow> pv pydict \<Rightarrow> error + 'r) \<Rightarrow> heap \<Rightarrow> Registry \<Rightarrow> pv list \<Rightarrow> error + 'r list" where
  "build_all call h reg [] = Inr []"
| "build_all call h reg (cfg # rest) =
     (case build_from_cfg call h cfg (RegistryObj reg) ''pipeline'' VNone of
        Inl e \<Rightarrow> Inl e
      | Inr t \<Rightarrow>
          (case build_all call h reg rest of
             Inl e \<Rightarrow> Inl e
           | Inr ts \<Rightarrow> Inr (t # ts)))"

definition registry_compose ::
    "(pv \<Rightarrow> pv pydict \<Rightarrow> error + 'r) \<Rightarrow> Registry \<Rightarrow> heap \<Rightarrow> pv \<Rightarrow> error + 'r list" where
  "registry_compose call reg h policy =
     (case as_list h policy of
        None \<Rightarrow> Inl (TypeError ''transforms must be a sequence'')
      | Some records \<Rightarrow> build_all call h reg records)"

definition foo_registry :: Registry where
  "foo_registry = \<lparr>module_dict = [(''cat'', [(''Foo'', VClass 0 ''Foo'')])]\<rparr>"

definition round_trip_heap :: heap where
  "round_trip_heap =
     [ODict [(''typename'', VStr ''Foo''), (''a'', VInt 1)],
      ODict [(''a'', VInt 99), (''b'', VInt 2)]]"

definition typename_default_heap :: heap where
  "typename_default_heap =
     [ODict [(''typename'', VStr ''Foo'')],
      ODict [(''typename'', VStr ''Bar'')]]"

section \<open>Dictionaries\<close>

lemma dict_contains_iff: "dict_contains k d \<longleftrightarrow> dict_get d k \<noteq> None"
  by (simp add: dict_contains_def dict_get_def dict_keys_def map_of_eq_None_iff)

lemma dict_contains_Nil [simp]: "\<not> dict_contains k []"
  by (simp add: dict_contains_def dict_keys_def)

lemma dict_get_Nil [simp]: "dict_get [] k = None"
  by (simp add: dict_get_def)

lemma dict_contains_append:
  "dict_contains k (d @ e) \<longleftrightarrow> dict_contains k d \<or> dict_contains k e"
  by (auto simp: dict_contains_def dict_keys_def)

lemma dict_get_setitem:
  "dict_get (dict_setitem k v d) k' = (if k' = k then Some v else dict_get d k')"
  by (induction d) (auto simp: dict_get_def)

lemma dict_get_append_new:
  "\<not> dict_contains k d \<Longrightarrow>
   dict_get (d @ [(k, v)]) k' = (if k' = k then Some v else dict_get d k')"
  by (induction d) (auto simp: dict_get_def dict_contains_def dict_keys_def)

lemma dict_get_setdefault:
  "dict_get (dict_setdefault k v d) k' =
     (if k' = k \<and> \<not> dict_contains k d then Some v else dict_get d k')"
  by (simp add: dict_setdefault_def dict_get_append_new)

lemma dict_keys_setitem:
  "dict_keys (dict_setitem k v d) =
     (if dict_contains k d then dict_keys d else dict_keys d @ [k])"
  by (induction d) (fastforce simp: dict_keys_def dict_contains_def)+

lemma dict_keys_setdefault:
  "dict_keys (dict_setdefault k v d) =
     (if dict_contains k d then dict_keys d else dict_keys d @ [k])"
  by (simp add: dict_setdefault_def dict_keys_def)

lemma dict_get_append:
  "dict_get (d @ e) k = (case dict_get d k of Some v \<Rightarrow> Some v | None \<Rightarrow> dict_get e k)"
  by (simp add: dict_get_def map_add_def split: option.splits)

lemma dict_get_filter_absent:
  "dict_get (filter (\<lambda>kv. \<not> dict_contains (fst kv) d) e) k =
     (if dict_contains k d then None else dict_get e k)"
  by (induction e) (auto simp: dict_get_def)

lemma dict_setitem_entry:
  "(k', x) \<in> set (dict_setitem k v d) \<Longrightarrow> (k', x) = (k, v) \<or> (k', x) \<in> set d"
  by (induction d) (auto split: if_splits)

section \<open>Registration\<close>

lemma register_not_class:
  "\<not> isclass cls \<Longrightarrow>
   Registry__register_module self cls m =
     (Inl (TypeError ''module must be a class, but got {type(cls)}''), self)"
  by (simp add: Registry__register_module_def)

text \<open>
  What a registration of a class does: \<open>setdefault\<close> has made the category when the
  name is looked up, and a category it has just made is empty.
\<close>

lemma register_class:
  "Registry__register_module self (VClass i n) m =
     (if dict_contains n (category self m) then
        (Inl (KeyError ''{cls_name} is already registered in {module_name}''), self)
      else
        (Inr (), self\<lparr>module_dict :=
           dict_setitem m (dict_setitem n (VClass i n) (category self m))
             (dict_setdefault m [] (module_dict self))\<rparr>))"
proof (cases "dict_get (module_dict self) m")
  case None
  then show ?thesis
    by (simp add: Registry__register_module_def Let_def dict_get_setdefault dict_contains_iff
        category_def)
next
  case (Some dd)
  then show ?thesis
    by (simp add: Registry__register_module_def Let_def dict_get_setdefault dict_contains_iff
        category_def dict_setdefault_def)
qed

lemma register_duplicate:
  assumes "dict_get (module_dict self) m = Some dd" and "dict_contains n dd"
  shows "Registry__register_module self (VClass i n) m =
     (Inl (KeyError ''{cls_name} is already registered in {module_name}''), self)"
  using assms by (simp add: register_class category_def)

lemma register_fresh:
  assumes "\<forall>dd. dict_get (module_dict self) m = Some dd \<longrightarrow> \<not> dict_contains n dd"
  shows "fst (Registry__register_module self (VClass i n) m) = Inr ()"
  using assms by (simp add: register_class category_def split: option.splits)

lemma get_after_register:
  assumes "Registry__register_module self (VClass i n) m = (Inr (), self')"
  shows "Registry_get self' n' m' = Inr c \<longleftrightarrow>
     (if n' = n \<and> m' = m then c = VClass i n else Registry_get self n' m' = Inr c)"
proof -
  from assms have nc: "\<not> dict_contains n (category self m)"
    and s': "self' = self\<lparr>module_dict :=
           dict_setitem m (dict_setitem n (VClass i n) (category self m))
             (dict_setdefault m [] (module_dict self))\<rparr>"
    by (auto simp: register_class split: if_splits)
  show ?thesis
  proof (cases "m' = m")
    case True
    then show ?thesis
      using nc
      by (auto simp: s' Registry_get_def dict_get_setitem dict_get_setdefault category_def
          dict_contains_iff split: option.splits)
  next
    case False
    then show ?thesis
      by (simp add: s' Registry_get_def dict_get_setitem dict_get_setdefault)
  qed
qed

lemma registered_iff_get: "registered self n m \<longleftrightarrow> (\<exists>c. Registry_get self n m = Inr c)"
  by (auto simp: registered_def Registry_get_def dict_contains_iff split: option.splits)

lemma register_keeps_categories_distinct:
  "distinct (dict_keys (module_dict self)) \<Longrightarrow>
   distinct (dict_keys (module_dict (snd (Registry__register_module self cls m))))"
  by (cases cls)
     (auto simp: register_class register_not_class dict_keys_setitem dict_keys_setdefault
        dict_contains_def)

text \<open>Registration registers classes only.\<close>

lemma holds_classesD:
  "holds_classes self \<Longrightarrow> (m, dd) \<in> set (module_dict self) \<Longrightarrow> (n, c) \<in> set dd
   \<Longrightarrow> isclass c"
  unfolding holds_classes_def list_all_iff by fastforce

lemma category_entries:
  assumes "holds_classes self" "(n, c) \<in> set (category self m)"
  shows "isclass c"
proof (cases "dict_get (module_dict self) m")
  case None
  then show ?thesis using assms(2) by (simp add: category_def)
next
  case (Some dd)
  then have "(m, dd) \<in> set (module_dict self)"
    by (auto simp: dict_get_def dest: map_of_SomeD)
  moreover have "(n, c) \<in> set dd" using assms(2) Some by (simp add: category_def)
  ultimately show ?thesis using assms(1) by (blast intro: holds_classesD)
qed

lemma register_keeps_classes:
  assumes "holds_classes self"
  shows "holds_classes (snd (Registry__register_module self cls m))"
proof (cases cls)
  case (VClass i n)
  have "\<And>m' dd kv. (m', dd) \<in> set (dict_setitem m (dict_setitem n (VClass i n) (category self m))
             (dict_setdefault m [] (module_dict self))) \<Longrightarrow> kv \<in> set dd \<Longrightarrow> isclass (snd kv)"
  proof -
    fix m' dd kv
    assume e: "(m', dd) \<in> set (dict_setitem m (dict_setitem n (VClass i n) (category self m))
             (dict_setdefault m [] (module_dict self)))" and kv: "kv \<in> set dd"
    from dict_setitem_entry [OF e]
    consider "dd = dict_setitem n (VClass i n) (category self m)"
      | "(m', dd) \<in> set (dict_setdefault m [] (module_dict self))" by auto
    then show "isclass (snd kv)"
    proof cases
      case 1
      then have "kv = (n, VClass i n) \<or> (fst kv, snd kv) \<in> set (category self m)"
        using kv dict_setitem_entry [of "fst kv" "snd kv" n "VClass i n" "category self m"] by auto
      then show ?thesis
        using category_entries [OF assms, of "fst kv" "snd kv" m] by auto
    next
      case 2
      then have "dd = [] \<or> (m', dd) \<in> set (module_dict self)"
        by (auto simp: dict_setdefault_def split: if_splits)
      then show ?thesis
        using kv holds_classesD [OF assms, of m' dd "fst kv" "snd kv"] by auto
    qed
  qed
  then show ?thesis
    using assms by (auto simp: VClass register_class holds_classes_def list_all_iff)
qed (use assms in \<open>simp_all add: register_not_class\<close>)

text \<open>
  C4. Registering a class whose name is registered in the category raises the \<open>KeyError\<close>
  of a duplicate registration; registering a value that is not a class raises a
  \<open>TypeError\<close>; and a name registered in neither of two different categories is registered
  in the one and then in the other, both calls return, and each category then yields the
  class registered in it.
\<close>

theorem register_module_errors:
  "(registered self n m \<longrightarrow>
      fst (Registry__register_module self (VClass i n) m) =
        Inl (KeyError ''{cls_name} is already registered in {module_name}''))
   \<and> (\<not> isclass v \<longrightarrow>
      fst (Registry__register_module self v m) =
        Inl (TypeError ''module must be a class, but got {type(cls)}''))
   \<and> (m1 \<noteq> m2 \<and> \<not> registered self n m1 \<and> \<not> registered self n m2 \<longrightarrow>
      (\<exists>self1 self2.
         Registry__register_module self (VClass i n) m1 = (Inr (), self1)
       \<and> Registry__register_module self1 (VClass j n) m2 = (Inr (), self2)
       \<and> Registry_get self2 n m1 = Inr (VClass i n)
       \<and> Registry_get self2 n m2 = Inr (VClass j n)))"
proof (intro conjI impI)
  assume "registered self n m"
  then obtain dd where "dict_get (module_dict self) m = Some dd" "dict_contains n dd"
    by (auto simp: registered_def split: option.splits)
  then show "fst (Registry__register_module self (VClass i n) m) =
        Inl (KeyError ''{cls_name} is already registered in {module_name}'')"
    by (simp add: register_duplicate)
next
  assume "\<not> isclass v"
  then show "fst (Registry__register_module self v m) =
        Inl (TypeError ''module must be a class, but got {type(cls)}'')"
    by (simp add: register_not_class)
next
  assume a: "m1 \<noteq> m2 \<and> \<not> registered self n m1 \<and> \<not> registered self n m2"
  have "fst (Registry__register_module self (VClass i n) m1) = Inr ()"
    using a by (intro register_fresh) (auto simp: registered_def)
  then obtain self1 where r1: "Registry__register_module self (VClass i n) m1 = (Inr (), self1)"
    by (cases "Registry__register_module self (VClass i n) m1") auto
  note g1 = get_after_register [OF r1]
  have "\<not> registered self1 n m2"
    using a by (auto simp: registered_iff_get g1)
  then have "fst (Registry__register_module self1 (VClass j n) m2) = Inr ()"
    by (intro register_fresh) (auto simp: registered_def)
  then obtain self2 where r2: "Registry__register_module self1 (VClass j n) m2 = (Inr (), self2)"
    by (cases "Registry__register_module self1 (VClass j n) m2") auto
  note g2 = get_after_register [OF r2]
  show "\<exists>self1 self2.
         Registry__register_module self (VClass i n) m1 = (Inr (), self1)
       \<and> Registry__register_module self1 (VClass j n) m2 = (Inr (), self2)
       \<and> Registry_get self2 n m1 = Inr (VClass i n)
       \<and> Registry_get self2 n m2 = Inr (VClass j n)"
    using r1 r2 a by (auto simp: g1 g2)
qed

theorem register_module_errors_witness:
  "fst (Registry__register_module foo_registry (VClass 7 ''Foo'') ''cat'') =
     Inl (KeyError ''{cls_name} is already registered in {module_name}'')
   \<and> fst (Registry__register_module foo_registry (VStr ''Foo'') ''cat'') =
     Inl (TypeError ''module must be a class, but got {type(cls)}'')
   \<and> (\<exists>self1 self2.
         Registry__register_module foo_registry (VClass 1 ''Bar'') ''cat'' = (Inr (), self1)
       \<and> Registry__register_module self1 (VClass 2 ''Bar'') ''dataset'' = (Inr (), self2)
       \<and> Registry_get self2 ''Bar'' ''cat'' = Inr (VClass 1 ''Bar'')
       \<and> Registry_get self2 ''Bar'' ''dataset'' = Inr (VClass 2 ''Bar''))"
  using register_module_errors [of foo_registry "''Foo''" "''cat''" 7 "VStr ''Foo''"
      "''cat''" "''cat''"]
    register_module_errors [of foo_registry "''Bar''" "''cat''" 1 "VStr ''Foo''"
      "''cat''" "''dataset''" 2]
  by (simp add: registered_def foo_registry_def dict_get_def dict_contains_def dict_keys_def)

text \<open>
  C10. A registration that raises leaves the registry as it was: the \<open>TypeError\<close> comes
  before any write, and the \<open>KeyError\<close> of a duplicate comes after a \<open>setdefault\<close> that
  found the category, since a category it had to make would be empty.
\<close>

theorem register_module_atomic:
  assumes raised: "fst (Registry__register_module self cls m) = Inl e"
  shows "snd (Registry__register_module self cls m) = self"
proof (cases "isclass cls")
  case False
  then show ?thesis by (simp add: register_not_class)
next
  case True
  then obtain i n where cls: "cls = VClass i n" by (cases cls) auto
  have "dict_contains n (category self m)"
    using raised by (simp add: cls register_class split: if_splits)
  then show ?thesis by (simp add: cls register_class)
qed

theorem register_module_atomic_witness:
  "fst (Registry__register_module foo_registry (VClass 7 ''Foo'') ''cat'') =
     Inl (KeyError ''{cls_name} is already registered in {module_name}'')
   \<and> snd (Registry__register_module foo_registry (VClass 7 ''Foo'') ''cat'') = foo_registry"
proof -
  have h: "fst (Registry__register_module foo_registry (VClass 7 ''Foo'') ''cat'') =
     Inl (KeyError ''{cls_name} is already registered in {module_name}'')"
    by (simp add: foo_registry_def Registry__register_module_def Let_def dict_setdefault_def
        dict_contains_def dict_keys_def dict_get_def)
  show ?thesis
    using h register_module_atomic [OF h] by simp
qed

section \<open>Size and membership\<close>

lemma two_in_one_category_eq:
  "two_in_one_category =
     \<lparr>module_dict = [(''cat'', [(''A'', VClass 0 ''A''), (''B'', VClass 1 ''B'')])]\<rparr>"
  by (simp add: two_in_one_category_def Registry__register_module_def Let_def
      dict_setdefault_def dict_contains_def dict_keys_def dict_get_def)

text \<open>
  C7. The size of a registry is the number of its categories: for a dict, whose keys are
  pairwise different, the length of \<open>_module_dict\<close> is the number of keys it contains. It is
  not the number of classes: after two classes have been registered under one category the
  size is 1.
\<close>

theorem Registry_len_counts_categories:
  "(distinct (dict_keys (module_dict self)) \<longrightarrow>
      Registry_len self = card {m. dict_contains m (module_dict self)})
   \<and> Registry_len two_in_one_category = 1 \<and> class_count two_in_one_category = 2"
proof (intro conjI impI)
  assume d: "distinct (dict_keys (module_dict self))"
  have "{m. dict_contains m (module_dict self)} = set (dict_keys (module_dict self))"
    by (auto simp: dict_contains_def)
  moreover have "card (set (dict_keys (module_dict self))) = length (dict_keys (module_dict self))"
    using d by (rule distinct_card)
  ultimately show "Registry_len self = card {m. dict_contains m (module_dict self)}"
    by (simp add: Registry_len_def dict_keys_def)
qed (simp_all add: two_in_one_category_eq Registry_len_def class_count_def)

theorem Registry_len_counts_categories_witness:
  "distinct (dict_keys (module_dict two_in_one_category))
   \<and> Registry_len two_in_one_category =
       card {m. dict_contains m (module_dict two_in_one_category)}"
  using Registry_len_counts_categories [of two_in_one_category]
  by (simp add: two_in_one_category_eq dict_keys_def)

text \<open>
  C2. On a registry with no category \<^verbatim>\<open>'module'\<close> the membership test does not return
  \<open>False\<close>: the \<open>KeyError\<close> of \<open>get\<close> leaves \<open>__contains__\<close>.
\<close>

theorem contains_raises_on_absent_key:
  "Registry_contains \<lparr>module_dict = []\<rparr> ''Foo'' =
     Inl (KeyError ''{module_name} is not in registry'')"
  by (simp add: Registry_contains_def Registry_get_def)

text \<open>
  In general every failure of the lookup is the outcome of the test, and the test returns a
  boolean only when the lookup has returned.
\<close>

lemma contains_propagates:
  "Registry_get self key ''module'' = Inl e \<Longrightarrow> Registry_contains self key = Inl e"
  by (simp add: Registry_contains_def)

lemma contains_returns:
  "Registry_contains self key = Inr b \<Longrightarrow>
   (\<exists>c. Registry_get self key ''module'' = Inr c \<and> b = (c \<noteq> VNone))"
  by (auto simp: Registry_contains_def split: sum.splits)

text \<open>
  So on a registry that registration has filled the test returns \<open>True\<close> or raises.
\<close>

lemma contains_True_or_raises:
  assumes "holds_classes self"
  shows "Registry_contains self key = Inr True \<or> (\<exists>e. Registry_contains self key = Inl e)"
proof (cases "Registry_get self key ''module''")
  case (Inl e)
  then show ?thesis by (simp add: Registry_contains_def)
next
  case (Inr c)
  then obtain dd where "dict_get (module_dict self) ''module'' = Some dd" "dict_get dd key = Some c"
    by (auto simp: Registry_get_def split: option.splits)
  then have "(''module'', dd) \<in> set (module_dict self)" "(key, c) \<in> set dd"
    by (auto simp: dict_get_def dest: map_of_SomeD)
  then have "isclass c"
    using assms by (blast intro: holds_classesD)
  then have "c \<noteq> VNone" by auto
  then show ?thesis using Inr by (simp add: Registry_contains_def)
qed

section \<open>The singleton\<close>

lemma construct_instance:
  "Registry_construct p = (p1, a) \<Longrightarrow> Registry_instance p1 = Some a"
  by (auto simp: Registry_construct_def Registry_new_def Registry_init_def Let_def
      split: option.splits prod.splits)

lemma construct_same_reference:
  "Registry_instance p = Some a \<Longrightarrow> snd (Registry_construct p) = a"
  by (simp add: Registry_construct_def Registry_new_def)

lemma construct_wf:
  "wf_process p \<Longrightarrow> wf_process (fst (Registry_construct p))"
  by (auto simp: Registry_construct_def Registry_new_def Registry_init_def Let_def wf_process_def
      split: option.splits prod.splits)

lemma construct_keeps_instance:
  "Registry_instance p = Some a \<Longrightarrow> Registry_instance (fst (Registry_construct p)) = Some a"
  by (simp add: Registry_construct_def Registry_new_def Registry_init_def)

lemma construct_many_keeps_instance:
  "Registry_instance p = Some a \<Longrightarrow> Registry_instance (fst (construct_many n p)) = Some a"
proof (induction n arbitrary: p)
  case 0
  then show ?case by simp
next
  case (Suc n)
  obtain p1 a1 where c: "Registry_construct p = (p1, a1)"
    by (cases "Registry_construct p")
  obtain p2 as where m: "construct_many n p1 = (p2, as)"
    by (cases "construct_many n p1")
  have "Registry_instance p1 = Some a"
    using construct_keeps_instance [OF Suc.prems] c by simp
  then have "Registry_instance p2 = Some a"
    using Suc.IH [of p1] m by simp
  then show ?case
    using c m by simp
qed

text \<open>All the requests of a run return one reference, the one the class holds.\<close>

lemma construct_many_same:
  "construct_many n p = (p', as) \<Longrightarrow> a \<in> set as \<Longrightarrow> Registry_instance p' = Some a"
proof (induction n arbitrary: p p' as)
  case 0
  then show ?case by simp
next
  case (Suc n)
  obtain p1 a1 where c: "Registry_construct p = (p1, a1)"
    by (cases "Registry_construct p")
  obtain p2 as' where m: "construct_many n p1 = (p2, as')"
    by (cases "construct_many n p1")
  from Suc.prems(1) c m have p': "p' = p2" and as: "as = a1 # as'"
    by simp_all
  show ?case
  proof (cases "a = a1")
    case True
    have "Registry_instance p1 = Some a1" using c by (rule construct_instance)
    then have "Registry_instance (fst (construct_many n p1)) = Some a1"
      by (rule construct_many_keeps_instance)
    then show ?thesis using m p' True by simp
  next
    case False
    then have "a \<in> set as'" using Suc.prems(2) as by simp
    then show ?thesis using Suc.IH [OF m] p' by simp
  qed
qed

text \<open>Every construction request leaves the instance with an empty \<open>_module_dict\<close>.\<close>

lemma construct_resets:
  "wf_process p \<Longrightarrow> Registry_construct p = (p1, a) \<Longrightarrow>
   Registry_at p1 a = Some \<lparr>module_dict = []\<rparr>"
  by (auto simp: Registry_construct_def Registry_new_def Registry_init_def Let_def wf_process_def
      Registry_at_def nth_append split: option.splits prod.splits)

text \<open>
  C1. A first request, a registration of \<open>Foo\<close> under \<open>cat\<close> through the reference it
  returned, and a second request: the second request returns the same reference, and the
  class that the lookup found before it is no longer registered, since \<open>__init__\<close> has run
  again on the instance.
\<close>

theorem second_construction_resets:
  "(case Registry_construct process_start of
      (p1, a1) \<Rightarrow>
        (case register_via p1 a1 (VClass 0 ''Foo'') ''cat'' of
           (r, p2) \<Rightarrow>
             (case Registry_construct p2 of
                (p3, a2) \<Rightarrow>
                  r = Inr () \<and> a2 = a1
                  \<and> get_via p2 a1 ''Foo'' ''cat'' = Inr (VClass 0 ''Foo'')
                  \<and> Registry_at p3 a1 = Some \<lparr>module_dict = []\<rparr>
                  \<and> get_via p3 a1 ''Foo'' ''cat'' =
                      Inl (KeyError ''{module_name} is not in registry''))))"
  by (simp add: Registry_construct_def Registry_new_def Registry_init_def process_start_def
      register_via_def Registry_at_def Registry__register_module_def Let_def get_via_def
      Registry_get_def dict_setdefault_def dict_contains_def dict_keys_def dict_get_def)

section \<open>Building from a configuration\<close>

lemma setdefault_all_eq:
  "distinct (dict_keys defaults) \<Longrightarrow>
   setdefault_all defaults args =
     args @ filter (\<lambda>kv. \<not> dict_contains (fst kv) args) defaults"
proof (induction defaults arbitrary: args)
  case Nil
  then show ?case by simp
next
  case (Cons kv defaults)
  obtain k v where kv: "kv = (k, v)" by (cases kv)
  from Cons.prems have dist: "distinct (dict_keys defaults)"
    and fresh: "k \<notin> set (dict_keys defaults)"
    by (simp_all add: kv dict_keys_def)
  show ?case
  proof (cases "dict_contains k args")
    case True
    then show ?thesis
      using Cons.IH [OF dist, of args] by (simp add: kv dict_setdefault_def)
  next
    case False
    have "filter (\<lambda>kv. \<not> dict_contains (fst kv) (args @ [(k, v)])) defaults =
          filter (\<lambda>kv. \<not> dict_contains (fst kv) args) defaults"
      using fresh
      by (intro filter_cong refl) (auto simp: dict_contains_append dict_contains_def dict_keys_def)
    then show ?thesis
      using False Cons.IH [OF dist, of "args @ [(k, v)]"] by (simp add: kv dict_setdefault_def)
  qed
qed

text \<open>
  C3, as the code has it. For a \<open>cfg\<close> whose \<open>typename\<close> is a name registered under the
  category, and a dict of defaults, the builder returns what the class returns on the
  entries of \<open>cfg\<close> other than \<open>typename\<close>, in their order, followed by the defaults whose
  keys are not among these entries; so a key of both has the value of \<open>cfg\<close>.
\<close>

theorem build_from_cfg_merges:
  assumes "as_dict h cfg = Some cfg_items"
    and "dict_get cfg_items ''typename'' = Some (VStr name)"
    and "Registry_get reg name module_name = Inr cls"
    and "as_dict h default_args = Some defaults"
    and "distinct (dict_keys defaults)"
  shows "build_from_cfg call h cfg (RegistryObj reg) module_name default_args =
           call cls (merged_kwargs cfg_items defaults)
         \<and> (\<forall>k. dict_get (merged_kwargs cfg_items defaults) k =
               (case dict_get (dict_pop ''typename'' cfg_items) k of
                  Some v \<Rightarrow> Some v
                | None \<Rightarrow> dict_get defaults k))"
proof
  have c: "dict_contains ''typename'' cfg_items"
    using assms(2) by (simp add: dict_contains_iff)
  have d: "default_args \<noteq> VNone"
    using assms(4) by (auto simp: as_dict_def)
  show "build_from_cfg call h cfg (RegistryObj reg) module_name default_args =
           call cls (merged_kwargs cfg_items defaults)"
    using assms c d
    by (simp add: build_from_cfg_def Let_def setdefault_all_eq merged_kwargs_def dict_pop_def)
  show "\<forall>k. dict_get (merged_kwargs cfg_items defaults) k =
               (case dict_get (dict_pop ''typename'' cfg_items) k of
                  Some v \<Rightarrow> Some v
                | None \<Rightarrow> dict_get defaults k)"
    by (auto simp: merged_kwargs_def Let_def dict_get_append dict_get_filter_absent dict_pop_def
        split: option.splits)
      (simp_all add: dict_contains_iff)
qed

text \<open>
  The example of the specification: \<^verbatim>\<open>{'typename': 'Foo', 'a': 1}\<close> with the defaults
  \<^verbatim>\<open>{'a': 99, 'b': 2}\<close> calls \<^verbatim>\<open>Foo(a=1, b=2)\<close>.
\<close>

theorem build_from_cfg_merges_witness:
  "build_from_cfg record_call round_trip_heap (VRef 0) (RegistryObj foo_registry) ''cat'' (VRef 1) =
     Inr (VClass 0 ''Foo'', [(''a'', VInt 1), (''b'', VInt 2)])"
  using build_from_cfg_merges [of round_trip_heap "VRef 0"
      "[(''typename'', VStr ''Foo''), (''a'', VInt 1)]" "''Foo''" foo_registry "''cat''"
      "VClass 0 ''Foo''" "VRef 1" "[(''a'', VInt 99), (''b'', VInt 2)]" record_call]
  by (simp add: round_trip_heap_def as_dict_def dict_get_def foo_registry_def Registry_get_def
      dict_keys_def merged_kwargs_def dict_contains_def record_call_def)

text \<open>
  A default under the key \<open>typename\<close> is not held back by the \<open>typename\<close> of \<open>cfg\<close>, which
  has been popped when the defaults are merged: \<^verbatim>\<open>{'typename': 'Foo'}\<close> with the
  defaults \<^verbatim>\<open>{'typename': 'Bar'}\<close> calls \<^verbatim>\<open>Foo(typename='Bar')\<close>.
\<close>

theorem build_from_cfg_typename_default:
  "build_from_cfg record_call typename_default_heap (VRef 0) (RegistryObj foo_registry) ''cat''
     (VRef 1) = Inr (VClass 0 ''Foo'', [(''typename'', VStr ''Bar'')])
   \<and> build_from_cfg record_call typename_default_heap (VRef 0) (RegistryObj foo_registry) ''cat''
     (VRef 1) \<noteq>
       record_call (VClass 0 ''Foo'')
         (claimed_kwargs [(''typename'', VStr ''Foo'')] [(''typename'', VStr ''Bar'')])"
  by (simp add: build_from_cfg_def typename_default_heap_def as_dict_def dict_contains_def
      dict_keys_def dict_get_def foo_registry_def Registry_get_def dict_pop_def Let_def
      dict_setdefault_def record_call_def claimed_kwargs_def)

text \<open>
  C6. The builder raises a \<open>KeyError\<close> when \<open>cfg\<close> is a dict without the key
  \<open>typename\<close>, and a \<open>TypeError\<close> when \<open>cfg\<close> is not a dict, or is a dict with the key and
  the registry is not a \<open>Registry\<close>, the defaults are neither a dict nor \<open>None\<close>, or the value
  of \<open>typename\<close> is not a string. In particular \<^verbatim>\<open>{'a': 1}\<close> raises the \<open>KeyError\<close>.
\<close>

theorem build_from_cfg_fails_fast:
  "(as_dict h cfg = None \<longrightarrow>
      is_TypeError (build_from_cfg call h cfg registry module_name default_args))
   \<and> (as_dict h cfg = Some cfg_items \<and> \<not> dict_contains ''typename'' cfg_items \<longrightarrow>
      is_KeyError (build_from_cfg call h cfg registry module_name default_args))
   \<and> (as_dict h cfg = Some cfg_items \<and> dict_contains ''typename'' cfg_items
       \<and> ((\<exists>v. registry = Other v)
          \<or> (as_dict h default_args = None \<and> default_args \<noteq> VNone)
          \<or> (\<exists>t. dict_get cfg_items ''typename'' = Some t \<and> \<not> is_str t)) \<longrightarrow>
      is_TypeError (build_from_cfg call h cfg registry module_name default_args))
   \<and> build_from_cfg call [ODict [(''a'', VInt 1)]] (VRef 0) (RegistryObj reg) ''module'' VNone =
       Inl (KeyError ''the cfg dict must contain the key \"typename\", but got {cfg}'')"
  by (auto simp: build_from_cfg_def is_TypeError_def is_KeyError_def Let_def as_dict_def
      dict_contains_def dict_keys_def split: registry_arg.splits option.splits)

theorem build_from_cfg_fails_fast_witness:
  "is_TypeError
     (build_from_cfg record_call round_trip_heap (VInt 3) (RegistryObj foo_registry) ''cat'' VNone)
   \<and> is_KeyError
     (build_from_cfg record_call round_trip_heap (VRef 1) (Other VNone) ''cat'' (VInt 3))
   \<and> is_TypeError
     (build_from_cfg record_call round_trip_heap (VRef 0) (Other VNone) ''cat'' VNone)
   \<and> is_TypeError
     (build_from_cfg record_call round_trip_heap (VRef 0) (RegistryObj foo_registry) ''cat''
        (VInt 3))
   \<and> is_TypeError
     (build_from_cfg record_call [ODict [(''typename'', VInt 3)]] (VRef 0)
        (RegistryObj foo_registry) ''cat'' VNone)"
  using
    build_from_cfg_fails_fast [of round_trip_heap "VInt 3" record_call
      "RegistryObj foo_registry" "''cat''" VNone "[]" foo_registry]
    build_from_cfg_fails_fast [of round_trip_heap "VRef 1" record_call
      "Other VNone" "''cat''" "VInt 3" "[(''a'', VInt 99), (''b'', VInt 2)]" foo_registry]
    build_from_cfg_fails_fast [of round_trip_heap "VRef 0" record_call
      "Other VNone" "''cat''" VNone "[(''typename'', VStr ''Foo''), (''a'', VInt 1)]"
      foo_registry]
    build_from_cfg_fails_fast [of round_trip_heap "VRef 0" record_call
      "RegistryObj foo_registry" "''cat''" "VInt 3"
      "[(''typename'', VStr ''Foo''), (''a'', VInt 1)]" foo_registry]
    build_from_cfg_fails_fast [of "[ODict [(''typename'', VInt 3)]]" "VRef 0" record_call
      "RegistryObj foo_registry" "''cat''" VNone "[(''typename'', VInt 3)]" foo_registry]
  by (simp add: round_trip_heap_def as_dict_def dict_contains_def dict_keys_def dict_get_def)

section \<open>The state of a deep copy\<close>

lemma fresh_mono: "fresh n0 n v \<Longrightarrow> n \<le> n' \<Longrightarrow> fresh n0 n' v"
  by (cases v) auto

lemma extends_refl [simp]: "extends h h"
  by (simp add: extends_def)

lemma extends_trans: "extends h h1 \<Longrightarrow> extends h1 h2 \<Longrightarrow> extends h h2"
  by (auto simp: extends_def)

lemma extends_append [simp]: "extends h (h @ xs)"
  by (simp add: extends_def nth_append)

lemma obj_values_list_append_at:
  "b < length h \<Longrightarrow>
   set (obj_values (list_append_at h b y ! b)) \<subseteq> insert y (set (obj_values (h ! b)))"
  by (auto simp: list_append_at_def split: obj.splits)

lemma set_dict_setitem_values:
  "set (map snd (dict_setitem k v d)) \<subseteq> insert v (set (map snd d))"
  using dict_setitem_entry [of _ _ k v d] by force

lemma obj_values_dict_setitem_at:
  "b < length h \<Longrightarrow>
   set (obj_values (dict_setitem_at h b k y ! b)) \<subseteq> insert y (set (obj_values (h ! b)))"
  using set_dict_setitem_values [of k y]
  by (auto simp: dict_setitem_at_def split: obj.splits)

lemma length_list_append_at [simp]: "length (list_append_at h b y) = length h"
  by (simp add: list_append_at_def)

lemma length_dict_setitem_at [simp]: "length (dict_setitem_at h b k y) = length h"
  by (simp add: dict_setitem_at_def)

lemma nth_list_append_at_other [simp]: "a \<noteq> b \<Longrightarrow> list_append_at h b y ! a = h ! a"
  by (simp add: list_append_at_def)

lemma nth_dict_setitem_at_other [simp]: "a \<noteq> b \<Longrightarrow> dict_setitem_at h b k y ! a = h ! a"
  by (simp add: dict_setitem_at_def)

text \<open>Writing a fresh value into a new object keeps the state of the copy.\<close>

lemma copying_list_append_at:
  assumes "copying n0 h m" "n0 \<le> b" "b < length h" "fresh n0 (length h) y"
  shows "copying n0 (list_append_at h b y) m"
  unfolding copying_def
proof (intro conjI allI impI ballI)
  show "n0 \<le> length (list_append_at h b y)" using assms by (simp add: copying_def)
next
  fix a v assume "a < n0" "v \<in> set (obj_values (list_append_at h b y ! a))"
  then show "ref_below n0 v" using assms by (auto simp: copying_def)
next
  fix a c assume "m a = Some c"
  then show "a < n0" "n0 \<le> c" "c < length (list_append_at h b y)"
    using assms by (auto simp: copying_def)
next
  fix c v assume c: "n0 \<le> c \<and> c < length (list_append_at h b y)"
    and v: "v \<in> set (obj_values (list_append_at h b y ! c))"
  show "fresh n0 (length (list_append_at h b y)) v"
  proof (cases "c = b")
    case True
    then have "v = y \<or> v \<in> set (obj_values (h ! b))"
      using v obj_values_list_append_at [OF assms(3), of y] by auto
    then show ?thesis using assms by (auto simp: copying_def)
  next
    case False
    then show ?thesis using c v assms by (auto simp: copying_def)
  qed
qed

lemma copying_dict_setitem_at:
  assumes "copying n0 h m" "n0 \<le> b" "b < length h" "fresh n0 (length h) y"
  shows "copying n0 (dict_setitem_at h b k y) m"
  unfolding copying_def
proof (intro conjI allI impI ballI)
  show "n0 \<le> length (dict_setitem_at h b k y)" using assms by (simp add: copying_def)
next
  fix a v assume "a < n0" "v \<in> set (obj_values (dict_setitem_at h b k y ! a))"
  then show "ref_below n0 v" using assms by (auto simp: copying_def)
next
  fix a c assume "m a = Some c"
  then show "a < n0" "n0 \<le> c" "c < length (dict_setitem_at h b k y)"
    using assms by (auto simp: copying_def)
next
  fix c v assume c: "n0 \<le> c \<and> c < length (dict_setitem_at h b k y)"
    and v: "v \<in> set (obj_values (dict_setitem_at h b k y ! c))"
  show "fresh n0 (length (dict_setitem_at h b k y)) v"
  proof (cases "c = b")
    case True
    then have "v = y \<or> v \<in> set (obj_values (h ! b))"
      using v obj_values_dict_setitem_at [OF assms(3), of k y] by auto
    then show ?thesis using assms by (auto simp: copying_def)
  next
    case False
    then show ?thesis using c v assms by (auto simp: copying_def)
  qed
qed

text \<open>Allocating an empty object for the copy of an old object.\<close>

lemma copying_alloc:
  assumes "copying n0 h m" "a < n0" "obj_values ob = []"
  shows "copying n0 (h @ [ob]) (m(a \<mapsto> length h))"
proof -
  have up: "\<And>v. fresh n0 (length h) v \<Longrightarrow> fresh n0 (Suc (length h)) v"
    by (erule fresh_mono) simp
  show ?thesis
    using assms by (auto simp: copying_def nth_append less_Suc_eq intro: up)
qed

lemma copy_list_items_ok:
  assumes f: "copier n0 f"
    and run: "copy_list_items f h m b xs = Some (h', m')"
    and inv: "copying n0 h m" and b: "n0 \<le> b" "b < length h"
    and xs: "\<forall>x \<in> set xs. ref_below n0 x"
  shows "length h \<le> length h' \<and> (\<forall>a < length h. a \<noteq> b \<longrightarrow> h' ! a = h ! a)
       \<and> copying n0 h' m' \<and> m \<subseteq>\<^sub>m m'
       \<and> (\<forall>ys. h ! b = OList ys \<longrightarrow> (\<exists>zs. h' ! b = OList zs))"
  using run inv b xs
proof (induction xs arbitrary: h m)
  case Nil
  then show ?case by simp
next
  case (Cons x xs)
  from Cons.prems(1) obtain h1 m1 y where
    fx: "f h m x = Some (h1, m1, y)"
    and rest: "copy_list_items f (list_append_at h1 b y) m1 b xs = Some (h', m')"
    by (auto split: option.splits)
  have "copied_ok n0 h m (h1, m1, y)"
    using f fx Cons.prems by (auto simp: copier_def)
  then have e: "extends h h1" and c1: "copying n0 h1 m1" and mm: "m \<subseteq>\<^sub>m m1"
    and fy: "fresh n0 (length h1) y"
    by (simp_all add: copied_ok_def)
  have b1: "b < length h1" using e Cons.prems(4) by (simp add: extends_def)
  have c2: "copying n0 (list_append_at h1 b y) m1"
    using c1 Cons.prems(3) b1 fy by (rule copying_list_append_at)
  have ih: "length (list_append_at h1 b y) \<le> length h'
       \<and> (\<forall>a < length (list_append_at h1 b y). a \<noteq> b \<longrightarrow> h' ! a = list_append_at h1 b y ! a)
       \<and> copying n0 h' m' \<and> m1 \<subseteq>\<^sub>m m'
       \<and> (\<forall>ys. list_append_at h1 b y ! b = OList ys \<longrightarrow> (\<exists>zs. h' ! b = OList zs))"
    using Cons.IH [OF rest c2 Cons.prems(3)] b1 Cons.prems(5) by simp
  have kind: "\<forall>ys. h ! b = OList ys \<longrightarrow> (\<exists>zs. h' ! b = OList zs)"
  proof (intro allI impI)
    fix ys assume "h ! b = OList ys"
    then have "h1 ! b = OList ys" using e Cons.prems(4) by (simp add: extends_def)
    then have "list_append_at h1 b y ! b = OList (ys @ [y])"
      using b1 by (simp add: list_append_at_def)
    then show "\<exists>zs. h' ! b = OList zs" using ih by blast
  qed
  show ?case
    using ih e mm kind by (auto simp: extends_def intro: map_le_trans)
qed

lemma copy_dict_items_ok:
  assumes f: "copier n0 f"
    and run: "copy_dict_items f h m b kvs = Some (h', m')"
    and inv: "copying n0 h m" and b: "n0 \<le> b" "b < length h"
    and xs: "\<forall>kv \<in> set kvs. ref_below n0 (snd kv)"
  shows "length h \<le> length h' \<and> (\<forall>a < length h. a \<noteq> b \<longrightarrow> h' ! a = h ! a)
       \<and> copying n0 h' m' \<and> m \<subseteq>\<^sub>m m'"
  using run inv b xs
proof (induction kvs arbitrary: h m)
  case Nil
  then show ?case by simp
next
  case (Cons kv kvs)
  from Cons.prems(1) obtain h1 m1 y where
    fx: "f h m (snd kv) = Some (h1, m1, y)"
    and rest: "copy_dict_items f (dict_setitem_at h1 b (fst kv) y) m1 b kvs = Some (h', m')"
    by (auto split: option.splits)
  have "copied_ok n0 h m (h1, m1, y)"
    using f fx Cons.prems by (auto simp: copier_def)
  then have e: "extends h h1" and c1: "copying n0 h1 m1" and mm: "m \<subseteq>\<^sub>m m1"
    and fy: "fresh n0 (length h1) y"
    by (simp_all add: copied_ok_def)
  have b1: "b < length h1" using e Cons.prems(4) by (simp add: extends_def)
  have c2: "copying n0 (dict_setitem_at h1 b (fst kv) y) m1"
    using c1 Cons.prems(3) b1 fy by (rule copying_dict_setitem_at)
  have ih: "length (dict_setitem_at h1 b (fst kv) y) \<le> length h'
       \<and> (\<forall>a < length (dict_setitem_at h1 b (fst kv) y). a \<noteq> b \<longrightarrow>
             h' ! a = dict_setitem_at h1 b (fst kv) y ! a)
       \<and> copying n0 h' m' \<and> m1 \<subseteq>\<^sub>m m'"
    using Cons.IH [OF rest c2 Cons.prems(3)] b1 Cons.prems(5) by simp
  show ?case
    using ih e mm by (auto simp: extends_def intro: map_le_trans)
qed

lemma copied_ok_memo:
  assumes "copying n0 h m" "m a = Some b"
  shows "copied_ok n0 h m (h, m, VRef b)"
  using assms by (auto simp: copied_ok_def copying_def)

lemma copied_ok_atom:
  assumes "copying n0 h m" "\<forall>a. x \<noteq> VRef a"
  shows "copied_ok n0 h m (h, m, x)"
  using assms by (cases x) (auto simp: copied_ok_def)

lemma old_values_below:
  assumes "copying n0 h m" "a < n0"
  shows "\<forall>v \<in> set (obj_values (h ! a)). ref_below n0 v"
  using assms by (simp add: copying_def)

text \<open>The descent into an object that the memo does not know.\<close>

lemma descend_ok:
  assumes f: "copier n0 f" and inv: "copying n0 h m" and a: "a < n0" and new: "m a = None"
    and run: "(case h ! a of
        OList xs \<Rightarrow>
          (case copy_list_items f (h @ [OList []]) (m(a \<mapsto> length h)) (length h) xs of
             None \<Rightarrow> None
           | Some (h1, m1) \<Rightarrow> Some (h1, m1, VRef (length h)))
      | ODict kvs \<Rightarrow>
          (case copy_dict_items f (h @ [ODict []]) (m(a \<mapsto> length h)) (length h) kvs of
             None \<Rightarrow> None
           | Some (h1, m1) \<Rightarrow> Some (h1, m1, VRef (length h)))) = Some r"
  shows "copied_ok n0 h m r"
proof -
  have n0: "n0 \<le> length h" using inv by (simp add: copying_def)
  have sub: "m \<subseteq>\<^sub>m m(a \<mapsto> length h)"
    using new by (auto simp: map_le_def)
  show ?thesis
  proof (cases "h ! a")
    case (OList xs)
    with run obtain h1 m1 where
      loop: "copy_list_items f (h @ [OList []]) (m(a \<mapsto> length h)) (length h) xs = Some (h1, m1)"
      and r: "r = (h1, m1, VRef (length h))"
      by (auto split: option.splits)
    have c0: "copying n0 (h @ [OList []]) (m(a \<mapsto> length h))"
      using inv a by (intro copying_alloc) simp_all
    have xs: "\<forall>x \<in> set xs. ref_below n0 x"
      using old_values_below [OF inv a] OList by simp
    have res: "length (h @ [OList []]) \<le> length h1
       \<and> (\<forall>a' < length (h @ [OList []]). a' \<noteq> length h \<longrightarrow> h1 ! a' = (h @ [OList []]) ! a')
       \<and> copying n0 h1 m1 \<and> m(a \<mapsto> length h) \<subseteq>\<^sub>m m1"
      using copy_list_items_ok [OF f loop c0 n0 _ xs] by simp
    have "extends h h1"
      using res by (auto simp: extends_def nth_append)
    moreover have "m \<subseteq>\<^sub>m m1"
      using sub res by (blast intro: map_le_trans)
    ultimately show ?thesis
      using res n0 by (simp add: r copied_ok_def)
  next
    case (ODict kvs)
    with run obtain h1 m1 where
      loop: "copy_dict_items f (h @ [ODict []]) (m(a \<mapsto> length h)) (length h) kvs = Some (h1, m1)"
      and r: "r = (h1, m1, VRef (length h))"
      by (auto split: option.splits)
    have c0: "copying n0 (h @ [ODict []]) (m(a \<mapsto> length h))"
      using inv a by (intro copying_alloc) simp_all
    have kvs: "\<forall>kv \<in> set kvs. ref_below n0 (snd kv)"
      using old_values_below [OF inv a] ODict by simp
    have res: "length (h @ [ODict []]) \<le> length h1
       \<and> (\<forall>a' < length (h @ [ODict []]). a' \<noteq> length h \<longrightarrow> h1 ! a' = (h @ [ODict []]) ! a')
       \<and> copying n0 h1 m1 \<and> m(a \<mapsto> length h) \<subseteq>\<^sub>m m1"
      using copy_dict_items_ok [OF f loop c0 n0 _ kvs] by simp
    have "extends h h1"
      using res by (auto simp: extends_def nth_append)
    moreover have "m \<subseteq>\<^sub>m m1"
      using sub res by (blast intro: map_le_trans)
    ultimately show ?thesis
      using res n0 by (simp add: r copied_ok_def)
  qed
qed

lemma deepcopy_n_copier: "copier n0 (deepcopy_n n)"
proof (induction n)
  case 0
  show ?case
    unfolding copier_def
  proof (intro allI impI, elim conjE)
    fix h m x r
    assume run: "deepcopy_n 0 h m x = Some r" and inv: "copying n0 h m"
    show "copied_ok n0 h m r"
    proof (cases "\<exists>a. x = VRef a")
      case True
      then obtain a where x: "x = VRef a" by blast
      with run obtain b where "m a = Some b" "r = (h, m, VRef b)"
        by (auto split: option.splits)
      then show ?thesis using inv by (simp add: copied_ok_memo)
    next
      case False
      then have "r = (h, m, x)" using run by (cases x) auto
      then show ?thesis using inv False by (simp add: copied_ok_atom)
    qed
  qed
next
  case (Suc n)
  show ?case
    unfolding copier_def
  proof (intro allI impI, elim conjE)
    fix h m x r
    assume run: "deepcopy_n (Suc n) h m x = Some r" and inv: "copying n0 h m"
      and below: "ref_below n0 x"
    show "copied_ok n0 h m r"
    proof (cases "\<exists>a. x = VRef a")
      case True
      then obtain a where x: "x = VRef a" by blast
      show ?thesis
      proof (cases "m a")
        case (Some b)
        then have "r = (h, m, VRef b)" using run x by simp
        then show ?thesis using inv Some by (simp add: copied_ok_memo)
      next
        case None
        have a: "a < n0" using below x by simp
        have "a < length h" using a inv by (simp add: copying_def)
        then show ?thesis
          using run x None
          by (intro descend_ok [OF Suc.IH inv a None]) (simp add: Let_def)
      qed
    next
      case False
      then have "r = (h, m, x)" using run by (cases x) auto
      then show ?thesis using inv False by (simp add: copied_ok_atom)
    qed
  qed
qed

lemma missing_mono:
  assumes "m \<subseteq>\<^sub>m m'"
  shows "card ({..<n0} - dom m') \<le> card ({..<n0::nat} - dom m)"
proof (rule card_mono)
  show "finite ({..<n0} - dom m)" by simp
  show "{..<n0} - dom m' \<subseteq> {..<n0} - dom m"
    using assms by (auto dest: map_le_implies_dom_le)
qed

lemma missing_enter:
  assumes "a < (n0::nat)" "m a = None"
  shows "Suc (card ({..<n0} - dom (m(a \<mapsto> b)))) = card ({..<n0} - dom m)"
proof -
  have eq: "{..<n0} - dom (m(a \<mapsto> b)) = ({..<n0} - dom m) - {a}" by auto
  have mem: "a \<in> {..<n0} - dom m" using assms by (auto simp: domIff)
  have fin: "finite ({..<n0} - dom m)" by simp
  show ?thesis
    unfolding eq using card_Suc_Diff1 [OF fin mem] .
qed

lemma copy_list_items_total:
  assumes f: "copier n0 f" and t: "total_copier n0 k f"
    and inv: "copying n0 h m" and b: "n0 \<le> b" "b < length h"
    and xs: "\<forall>x \<in> set xs. ref_below n0 x"
    and k: "card ({..<n0} - dom m) \<le> k"
  shows "copy_list_items f h m b xs \<noteq> None"
  using inv b xs k
proof (induction xs arbitrary: h m)
  case Nil
  then show ?case by simp
next
  case (Cons x xs)
  have "f h m x \<noteq> None"
    using t Cons.prems by (auto simp: total_copier_def)
  then obtain h1 m1 y where fx: "f h m x = Some (h1, m1, y)" by auto
  have "copied_ok n0 h m (h1, m1, y)"
    using f fx Cons.prems by (auto simp: copier_def)
  then have e: "extends h h1" and c1: "copying n0 h1 m1" and mm: "m \<subseteq>\<^sub>m m1"
    and fy: "fresh n0 (length h1) y"
    by (simp_all add: copied_ok_def)
  have b1: "b < length h1" using e Cons.prems(3) by (simp add: extends_def)
  have c2: "copying n0 (list_append_at h1 b y) m1"
    using c1 Cons.prems(2) b1 fy by (rule copying_list_append_at)
  have k1: "card ({..<n0} - dom m1) \<le> k"
    using missing_mono [OF mm, of n0] Cons.prems(5) by simp
  have "copy_list_items f (list_append_at h1 b y) m1 b xs \<noteq> None"
    using Cons.IH [OF c2 Cons.prems(2) _ _ k1] b1 Cons.prems(4) by simp
  then show ?case using fx by simp
qed

lemma copy_dict_items_total:
  assumes f: "copier n0 f" and t: "total_copier n0 k f"
    and inv: "copying n0 h m" and b: "n0 \<le> b" "b < length h"
    and kvs: "\<forall>kv \<in> set kvs. ref_below n0 (snd kv)"
    and k: "card ({..<n0} - dom m) \<le> k"
  shows "copy_dict_items f h m b kvs \<noteq> None"
  using inv b kvs k
proof (induction kvs arbitrary: h m)
  case Nil
  then show ?case by simp
next
  case (Cons kv kvs)
  have "f h m (snd kv) \<noteq> None"
    using t Cons.prems by (auto simp: total_copier_def)
  then obtain h1 m1 y where fx: "f h m (snd kv) = Some (h1, m1, y)" by auto
  have "copied_ok n0 h m (h1, m1, y)"
    using f fx Cons.prems by (auto simp: copier_def)
  then have e: "extends h h1" and c1: "copying n0 h1 m1" and mm: "m \<subseteq>\<^sub>m m1"
    and fy: "fresh n0 (length h1) y"
    by (simp_all add: copied_ok_def)
  have b1: "b < length h1" using e Cons.prems(3) by (simp add: extends_def)
  have c2: "copying n0 (dict_setitem_at h1 b (fst kv) y) m1"
    using c1 Cons.prems(2) b1 fy by (rule copying_dict_setitem_at)
  have k1: "card ({..<n0} - dom m1) \<le> k"
    using missing_mono [OF mm, of n0] Cons.prems(5) by simp
  have "copy_dict_items f (dict_setitem_at h1 b (fst kv) y) m1 b kvs \<noteq> None"
    using Cons.IH [OF c2 Cons.prems(2) _ _ k1] b1 Cons.prems(4) by simp
  then show ?case using fx by simp
qed

lemma deepcopy_n_total: "total_copier n0 n (deepcopy_n n)"
proof (induction n)
  case 0
  show ?case
    unfolding total_copier_def
  proof (intro allI impI, elim conjE)
    fix h m x
    assume inv: "copying n0 h m" and below: "ref_below n0 x"
      and k: "card ({..<n0} - dom m) \<le> 0"
    show "deepcopy_n 0 h m x \<noteq> None"
    proof (cases "\<exists>a. x = VRef a")
      case True
      then obtain a where x: "x = VRef a" by blast
      have "m a \<noteq> None"
      proof
        assume "m a = None"
        then have "Suc (card ({..<n0} - dom (m(a \<mapsto> 0)))) = card ({..<n0} - dom m)"
          using below x by (intro missing_enter) simp_all
        then show False using k by simp
      qed
      then show ?thesis using x by auto
    next
      case False
      then show ?thesis by (cases x) auto
    qed
  qed
next
  case (Suc n)
  show ?case
    unfolding total_copier_def
  proof (intro allI impI, elim conjE)
    fix h m x
    assume inv: "copying n0 h m" and below: "ref_below n0 x"
      and k: "card ({..<n0} - dom m) \<le> Suc n"
    show "deepcopy_n (Suc n) h m x \<noteq> None"
    proof (cases "\<exists>a. x = VRef a")
      case True
      then obtain a where x: "x = VRef a" by blast
      show ?thesis
      proof (cases "m a")
        case (Some b)
        then show ?thesis using x by simp
      next
        case None
        have a: "a < n0" using below x by simp
        have n0: "n0 \<le> length h" using inv by (simp add: copying_def)
        have al: "a < length h" using a n0 by simp
        have k1: "card ({..<n0} - dom (m(a \<mapsto> length h))) \<le> n"
          using missing_enter [of a n0 m "length h"] a None k by simp
        show ?thesis
        proof (cases "h ! a")
          case (OList xs)
          have c0: "copying n0 (h @ [OList []]) (m(a \<mapsto> length h))"
            using inv a by (intro copying_alloc) simp_all
          have xs: "\<forall>x \<in> set xs. ref_below n0 x"
            using old_values_below [OF inv a] OList by simp
          have "copy_list_items (deepcopy_n n) (h @ [OList []]) (m(a \<mapsto> length h)) (length h) xs
                  \<noteq> None"
            using copy_list_items_total [OF deepcopy_n_copier Suc.IH c0 n0 _ xs k1] by simp
          then show ?thesis using x None al OList by (auto simp: Let_def)
        next
          case (ODict kvs)
          have c0: "copying n0 (h @ [ODict []]) (m(a \<mapsto> length h))"
            using inv a by (intro copying_alloc) simp_all
          have kvs: "\<forall>kv \<in> set kvs. ref_below n0 (snd kv)"
            using old_values_below [OF inv a] ODict by simp
          have "copy_dict_items (deepcopy_n n) (h @ [ODict []]) (m(a \<mapsto> length h)) (length h) kvs
                  \<noteq> None"
            using copy_dict_items_total [OF deepcopy_n_copier Suc.IH c0 n0 _ kvs k1] by simp
          then show ?thesis using x None al ODict by (auto simp: Let_def)
        qed
      qed
    next
      case False
      then show ?thesis by (cases x) auto
    qed
  qed
qed

section \<open>Properties of the deep copy\<close>

lemma closed_copying: "closed_heap h \<Longrightarrow> copying (length h) h Map.empty"
  by (auto simp: closed_heap_def copying_def list_all_iff)

lemma deepcopy_total:
  assumes "closed_heap h" "ref_below (length h) x"
  shows "deepcopy h x \<noteq> None"
proof -
  have "card ({..<length h} - dom (Map.empty :: memo)) \<le> length h" by simp
  then have "deepcopy_n (length h) h Map.empty x \<noteq> None"
    using deepcopy_n_total [of "length h" "length h"] closed_copying [OF assms(1)] assms(2)
    unfolding total_copier_def by blast
  then show ?thesis by (auto simp: deepcopy_def)
qed

lemma deepcopy_fresh:
  assumes "closed_heap h" "ref_below (length h) x" "deepcopy h x = Some (h1, y)"
  shows "extends h h1 \<and> fresh (length h) (length h1) y
       \<and> (\<forall>b. length h \<le> b \<and> b < length h1 \<longrightarrow>
             (\<forall>v \<in> set (obj_values (h1 ! b)). fresh (length h) (length h1) v))"
proof -
  from assms(3) obtain m1 where run: "deepcopy_n (length h) h Map.empty x = Some (h1, m1, y)"
    by (auto simp: deepcopy_def split: option.splits)
  have "copied_ok (length h) h Map.empty (h1, m1, y)"
    using deepcopy_n_copier [of "length h" "length h"] run closed_copying [OF assms(1)] assms(2)
    unfolding copier_def by blast
  then show ?thesis
    by (simp add: copied_ok_def copying_def)
qed

lemma deepcopy_list:
  assumes "closed_heap h" "as_list h x = Some xs" "deepcopy h x = Some (h1, y)"
  shows "\<exists>zs. as_list h1 y = Some zs"
proof -
  from assms(2) obtain a where x: "x = VRef a" and a: "a < length h" and ha: "h ! a = OList xs"
    by (auto simp: as_list_def split: pv.splits if_splits obj.splits)
  from a obtain n where n: "length h = Suc n" by (cases "length h") auto
  from assms(3) obtain m1 where run: "deepcopy_n (Suc n) h Map.empty x = Some (h1, m1, y)"
    by (auto simp: deepcopy_def n split: option.splits)
  then have loop: "copy_list_items (deepcopy_n n) (h @ [OList []]) [a \<mapsto> length h] (length h) xs
      = Some (h1, m1)" and y: "y = VRef (length h)"
    using x a ha by (auto simp: Let_def split: option.splits)
  have c0: "copying (length h) (h @ [OList []]) [a \<mapsto> length h]"
    using closed_copying [OF assms(1)] a by (intro copying_alloc) simp_all
  have xs: "\<forall>x \<in> set xs. ref_below (length h) x"
    using old_values_below [OF closed_copying [OF assms(1)] a] ha by simp
  have res: "length (h @ [OList []]) \<le> length h1
      \<and> (\<forall>ys. (h @ [OList []]) ! length h = OList ys \<longrightarrow> (\<exists>zs. h1 ! length h = OList zs))"
    using copy_list_items_ok [OF deepcopy_n_copier loop c0 _ _ xs] by simp
  then obtain zs where "h1 ! length h = OList zs" by auto
  then show ?thesis using res by (auto simp: as_list_def y)
qed

section \<open>What a reference to fresh objects shows\<close>

lemma view_fresh_stable:
  assumes closed: "\<forall>b. n0 \<le> b \<and> b < length h1 \<longrightarrow>
             (\<forall>v \<in> set (obj_values (h1 ! b)). fresh n0 (length h1) v)"
    and mut: "mutation_of_old n0 h1 h2"
  shows "fresh n0 (length h1) v \<Longrightarrow> view d h2 v = view d h1 v"
proof (induction d arbitrary: v)
  case 0
  then show ?case by (cases v) auto
next
  case (Suc d)
  show ?case
  proof (cases "\<exists>b. v = VRef b")
    case True
    then obtain b where v: "v = VRef b" by blast
    have b: "n0 \<le> b" "b < length h1" using Suc.prems v by auto
    have b2: "b < length h2" and same: "h2 ! b = h1 ! b"
      using mut b by (auto simp: mutation_of_old_def list_all_iff)
    have vals: "\<forall>w \<in> set (obj_values (h1 ! b)). view d h2 w = view d h1 w"
      using closed b Suc.IH by blast
    show ?thesis
      using vals by (cases "h1 ! b") (auto simp: v b b2 same)
  next
    case False
    then show ?thesis by (cases v) auto
  qed
qed

section \<open>Construction of AutoAugment\<close>

lemma check_augments_eq:
  "check_augments h augments =
     (if list_all (augment_ok h) augments then Inr ()
      else Inl (AssertionError ''Each specific augmentation must be a dict with key \"type\".''))"
  by (induction augments) (auto simp: augment_ok_def split: option.splits)

lemma check_policies_ok:
  "list_all (policy_ok h) ps \<Longrightarrow> check_policies h ps = Inr ()"
  by (induction ps) (auto simp: policy_ok_def check_augments_eq split: option.splits)

lemma check_policies_bad:
  "\<not> list_all (policy_ok h) ps \<Longrightarrow> \<exists>msg. check_policies h ps = Inl (AssertionError msg)"
  by (induction ps) (auto simp: policy_ok_def check_augments_eq split: option.splits)

lemma compose_all_total:
  assumes "\<forall>h' p. \<exists>t. compose h' p = Inr t"
  shows "\<exists>ts. compose_all compose h ps = Inr ts"
proof (induction ps)
  case Nil
  then show ?case by simp
next
  case (Cons p ps)
  from assms obtain t where "compose h p = Inr t" by blast
  with Cons show ?case by auto
qed

lemma as_list_ref_below: "as_list h x = Some xs \<Longrightarrow> ref_below (length h) x"
  by (auto simp: as_list_def split: pv.splits if_splits)





text \<open>So it is for every policy whose first record has no key \<open>typename\<close>.\<close>

lemma registry_compose_wants_typename:
  assumes "as_list h policy = Some (cfg # rest)" "as_dict h cfg = Some d"
    "\<not> dict_contains ''typename'' d"
  shows "registry_compose call reg h policy =
     Inl (KeyError ''the cfg dict must contain the key \"typename\", but got {cfg}'')"
  using assms by (simp add: registry_compose_def build_from_cfg_def)

text \<open>
  When \<open>Compose\<close> builds a pipeline from every policy, the construction returns an instance
  for the policies that pass the assertions, and for no other.
\<close>

lemma AutoAugment_init_returns_if_composed:
  assumes "closed_heap h" and "\<forall>h' p. \<exists>t. compose h' p = Inr t"
  shows "(policies_ok h policies_arg \<longrightarrow>
            (\<exists>h1 self. AutoAugment_init compose h policies_arg = Some (Inr (h1, self))))
       \<and> (\<not> policies_ok h policies_arg \<longrightarrow>
            (\<exists>msg. AutoAugment_init compose h policies_arg =
               Some (Inl (AssertionError msg))))"
proof (intro conjI impI)
  assume ok: "policies_ok h policies_arg"
  then obtain ps where ps: "as_list h policies_arg = Some ps" "ps \<noteq> []"
    "list_all (policy_ok h) ps"
    by (auto simp: policies_ok_def split: option.splits)
  have below: "ref_below (length h) policies_arg" using ps(1) by (rule as_list_ref_below)
  obtain h1 copied where dc: "deepcopy h policies_arg = Some (h1, copied)"
    using deepcopy_total [OF assms(1) below] by auto
  obtain cps where cps: "as_list h1 copied = Some cps"
    using deepcopy_list [OF assms(1) ps(1) dc] by auto
  obtain ts where ts: "compose_all compose h1 cps = Inr ts"
    using compose_all_total [OF assms(2)] by blast
  show "\<exists>h1 self. AutoAugment_init compose h policies_arg = Some (Inr (h1, self))"
    using ps dc cps ts by (simp add: AutoAugment_init_def check_policies_ok)
next
  assume bad: "\<not> policies_ok h policies_arg"
  show "\<exists>msg. AutoAugment_init compose h policies_arg = Some (Inl (AssertionError msg))"
  proof (cases "as_list h policies_arg")
    case None
    then show ?thesis by (simp add: AutoAugment_init_def)
  next
    case (Some ps)
    show ?thesis
    proof (cases "ps = []")
      case True
      then show ?thesis using Some by (simp add: AutoAugment_init_def)
    next
      case False
      then have "\<not> list_all (policy_ok h) ps"
        using bad Some by (simp add: policies_ok_def)
      then obtain msg where "check_policies h ps = Inl (AssertionError msg)"
        using check_policies_bad by blast
      then show ?thesis using Some False by (simp add: AutoAugment_init_def)
    qed
  qed
qed

lemma compose_all_cong:
  assumes "\<forall>p \<in> set ps. compose h2 p = compose h1 p"
  shows "compose_all compose h2 ps = compose_all compose h1 ps"
  using assms by (induction ps) (auto split: sum.splits)

text \<open>
  C8. After a construction that has returned, let the caller write to objects that were in
  the store before it, the list passed in, its policies and their dicts among them, and
  allocate new ones. What the stored policies show is the same at every depth; and when a
  pipeline depends on nothing but what its policy shows, composing the stored policies again
  yields the pipelines that the instance holds.
\<close>

theorem AutoAugment_isolated:
  assumes closed: "closed_heap h"
    and init: "AutoAugment_init compose h policies_arg = Some (Inr (h1, self))"
    and mut: "mutation_of_old (length h) h1 h2"
  shows "(\<forall>d. view d h2 (policies self) = view d h1 (policies self))
       \<and> ((\<forall>ha hb p. (\<forall>d. view d ha p = view d hb p) \<longrightarrow> compose ha p = compose hb p) \<longrightarrow>
            (\<exists>ps. as_list h2 (policies self) = Some ps
                \<and> compose_all compose h2 ps = Inr (transforms self)))"
proof -
  from init obtain ps copied cps ts where
    ps: "as_list h policies_arg = Some ps"
    and dc: "deepcopy h policies_arg = Some (h1, copied)"
    and cps: "as_list h1 copied = Some cps"
    and ts: "compose_all compose h1 cps = Inr ts"
    and self: "self = \<lparr>policies = copied, transforms = ts\<rparr>"
    by (auto simp: AutoAugment_init_def split: option.splits if_splits sum.splits)
  have below: "ref_below (length h) policies_arg" using ps by (rule as_list_ref_below)
  note fr = deepcopy_fresh [OF closed below dc]
  from fr have new: "\<forall>b. length h \<le> b \<and> b < length h1 \<longrightarrow>
      (\<forall>v \<in> set (obj_values (h1 ! b)). fresh (length h) (length h1) v)"
    and fc: "fresh (length h) (length h1) copied"
    by simp_all
  have stable: "\<And>v d. fresh (length h) (length h1) v \<Longrightarrow> view d h2 v = view d h1 v"
    using view_fresh_stable [OF new mut] .
  from cps obtain b where c: "copied = VRef b" and b1: "b < length h1" and hb: "h1 ! b = OList cps"
    by (auto simp: as_list_def split: pv.splits if_splits obj.splits)
  have b0: "length h \<le> b" using fc c by simp
  have same: "h2 ! b = h1 ! b" and b2: "b < length h2"
    using mut b0 b1 by (auto simp: mutation_of_old_def list_all_iff)
  have cps2: "as_list h2 copied = Some cps"
    using same b2 hb by (simp add: as_list_def c)
  have fresh_cps: "\<forall>p \<in> set cps. fresh (length h) (length h1) p"
    using new b0 b1 hb by auto
  show ?thesis
  proof (intro conjI allI impI)
    fix d show "view d h2 (policies self) = view d h1 (policies self)"
      using stable [OF fc] by (simp add: self)
  next
    assume loc: "\<forall>ha hb p. (\<forall>d. view d ha p = view d hb p) \<longrightarrow> compose ha p = compose hb p"
    have "\<forall>p \<in> set cps. compose h2 p = compose h1 p"
      using loc fresh_cps stable by blast
    then have "compose_all compose h2 cps = compose_all compose h1 cps"
      by (rule compose_all_cong)
    then show "\<exists>ps. as_list h2 (policies self) = Some ps
                \<and> compose_all compose h2 ps = Inr (transforms self)"
      using cps2 ts by (simp add: self)
  qed
qed

lemma one_policy_constructed:
  "AutoAugment_init view_compose one_policy_heap (VRef 2) =
     Some (Inr (constructed_heap,
       \<lparr>policies = VRef 3, transforms = [TList [TDict [(''type'', TAtom (VStr ''X''))]]]\<rparr>))"
  by (simp add: AutoAugment_init_def one_policy_heap_def as_list_def as_dict_def
      dict_contains_def dict_keys_def deepcopy_def Let_def list_append_at_def
      dict_setitem_at_def compose_all.simps view_compose_def constructed_heap_def
      numeral_3_eq_3 numeral_2_eq_2)

lemma view_compose_local:
  "\<forall>ha hb p. (\<forall>d. view d ha p = view d hb p) \<longrightarrow> view_compose ha p = view_compose hb p"
  by (simp add: view_compose_def)

text \<open>
  The caller of \<^verbatim>\<open>AutoAugment([[{'type': 'X'}]])\<close> empties both lists and overwrites the
  type: the list passed in shows \<^verbatim>\<open>[]\<close>, the stored policies show what was passed in.
\<close>

theorem AutoAugment_isolated_witness:
  "view 3 mutated_heap (VRef 3) = TList [TList [TDict [(''type'', TAtom (VStr ''X''))]]]
   \<and> view 3 mutated_heap (VRef 2) = TList []
   \<and> (\<exists>ps. as_list mutated_heap (VRef 3) = Some ps
        \<and> compose_all view_compose mutated_heap ps =
            Inr [TList [TDict [(''type'', TAtom (VStr ''X''))]]])"
proof -
  have c: "closed_heap one_policy_heap"
    by (simp add: closed_heap_def one_policy_heap_def)
  have m: "mutation_of_old (length one_policy_heap) constructed_heap mutated_heap"
    by (simp add: mutation_of_old_def one_policy_heap_def constructed_heap_def mutated_heap_def
        upt_rec)
  note iso = AutoAugment_isolated [OF c one_policy_constructed m]
  have kept: "view 3 mutated_heap (VRef 3) = view 3 constructed_heap (VRef 3)"
    using iso by simp
  have shown: "view 3 constructed_heap (VRef 3) =
      TList [TList [TDict [(''type'', TAtom (VStr ''X''))]]]"
    by (simp add: constructed_heap_def numeral_3_eq_3)
  have emptied: "view 3 mutated_heap (VRef 2) = TList []"
    by (simp add: mutated_heap_def numeral_3_eq_3)
  have again: "\<exists>ps. as_list mutated_heap (VRef 3) = Some ps
        \<and> compose_all view_compose mutated_heap ps =
            Inr [TList [TDict [(''type'', TAtom (VStr ''X''))]]]"
    using iso view_compose_local by simp
  show ?thesis
    using kept shown emptied again by simp
qed

section \<open>Invocation of AutoAugment\<close>

text \<open>A call applies the pipeline drawn, and no other, to the record.\<close>

lemma AutoAugment_call_drawn:
  "i < length (transforms self) \<Longrightarrow>
   AutoAugment_call run self i results = Some (run (transforms self ! i) results)"
  by (simp add: AutoAugment_call_def)

end
